theory Spec2Isabelle
  imports Main "HOL-Library.Multiset" "HOL-Library.Sublist"
begin

section \<open>JavaScript values and objects\<close>

text \<open>
  The server (src/server/server.js) receives JSON payloads from its clients and builds
  plain objects for them. A JavaScript value is modelled as a datatype; an object is the
  list of its own properties in creation order, with a flag telling an Array from a
  plain object. Numbers are modelled as integers: server.js does no arithmetic on a
  client-supplied number except for the query area, which is handed to the quadtree
  manager. A string is the list of its code units, which is what \<open>substring\<close> counts.
  The file runs in strict mode (line 7).
\<close>

datatype shape = Plain | Array

datatype jsval =
    JUndefined
  | JNull
  | JBool bool
  | JNum int
  | JStr string
  | JObj shape "(string \<times> jsval) list"

text \<open>Every failure raised by server.js itself is a TypeError.\<close>

datatype error = TypeError

type_synonym props = "(string \<times> jsval) list"

definition nullish :: "jsval \<Rightarrow> bool" where
  "nullish v = (v = JUndefined \<or> v = JNull)"

fun is_object :: "jsval \<Rightarrow> bool" where
  "is_object (JObj s ps) = True"
| "is_object v = False"

text \<open>
  \<open>v.k\<close> for the property names server.js reads (\<open>player\<close>, \<open>id\<close>, \<open>x\<close>, \<open>y\<close>,
  \<open>screenWidth\<close>, \<open>screenHeight\<close>, \<open>screenName\<close>): a TypeError on \<open>undefined\<close> and
  \<open>null\<close>, the property or \<open>undefined\<close> on an object, \<open>undefined\<close> on a primitive.
\<close>

fun get_prop :: "jsval \<Rightarrow> string \<Rightarrow> error + jsval" where
  "get_prop JUndefined k = Inl TypeError"
| "get_prop JNull k = Inl TypeError"
| "get_prop (JObj s ps) k = Inr (case map_of ps k of None \<Rightarrow> JUndefined | Some v \<Rightarrow> v)"
| "get_prop v k = Inr JUndefined"

text \<open>\<open>o[k] = v\<close> on the property list: an existing key keeps its place, a new one is appended.\<close>

fun put_prop :: "string \<Rightarrow> jsval \<Rightarrow> props \<Rightarrow> props" where
  "put_prop k v [] = [(k, v)]"
| "put_prop k v ((k', v') # ps) =
     (if k = k' then (k, v) # ps else (k', v') # put_prop k v ps)"

text \<open>
  \<open>o.k = v\<close> in strict mode: a TypeError unless \<open>o\<close> is an object (assignment to a
  property of \<open>undefined\<close>, \<open>null\<close> or a primitive throws).
\<close>

fun set_prop :: "jsval \<Rightarrow> string \<Rightarrow> jsval \<Rightarrow> error + jsval" where
  "set_prop (JObj s ps) k v = Inr (JObj s (put_prop k v ps))"
| "set_prop w k v = Inl TypeError"

subsection \<open>Property keys and enumeration order\<close>

fun show_nat :: "nat \<Rightarrow> string" where
  "show_nat n =
     (if n < 10 then [''0123456789'' ! n]
      else show_nat (n div 10) @ [''0123456789'' ! (n mod 10)])"

declare show_nat.simps [simp del]

definition show_int :: "int \<Rightarrow> string" where
  "show_int i = (if i < 0 then CHR ''-'' # show_nat (nat (- i)) else show_nat (nat i))"

definition digit_of :: "char \<Rightarrow> nat option" where
  "digit_of c =
     map_of [(CHR ''0'', 0), (CHR ''1'', 1), (CHR ''2'', 2), (CHR ''3'', 3), (CHR ''4'', 4),
             (CHR ''5'', 5), (CHR ''6'', 6), (CHR ''7'', 7), (CHR ''8'', 8), (CHR ''9'', 9)] c"

fun parse_nat :: "nat \<Rightarrow> string \<Rightarrow> nat option" where
  "parse_nat acc [] = Some acc"
| "parse_nat acc (c # cs) =
     (case digit_of c of None \<Rightarrow> None | Some d \<Rightarrow> parse_nat (10 * acc + d) cs)"

text \<open>
  An array index is a key that is the canonical decimal form of an integer below
  \<open>2^32 - 1 = 4294967295\<close>. JavaScript enumerates the own properties of an object with the array
  indices first, in ascending order, and then the other string keys in creation order.
\<close>

definition array_index :: "string \<Rightarrow> nat option" where
  "array_index k =
     (if k = [] then None
      else case parse_nat 0 k of
             None \<Rightarrow> None
           | Some n \<Rightarrow> if show_nat n = k \<and> n < 4294967295 then Some n else None)"

definition index_props :: "props \<Rightarrow> (nat \<times> string \<times> jsval) list" where
  "index_props ps =
     List.map_filter (\<lambda>(k, v). map_option (\<lambda>n. (n, k, v)) (array_index k)) ps"

definition own_props :: "props \<Rightarrow> props" where
  "own_props ps =
     map snd (sort_key fst (index_props ps)) @ filter (\<lambda>(k, v). array_index k = None) ps"

definition own_keys :: "props \<Rightarrow> string list" where
  "own_keys ps = map fst (own_props ps)"

text \<open>
  \<open>Object.assign(target, s1, ..., sn)\<close>: the sources are merged from left to right, each
  one property after the other in its enumeration order.
\<close>

definition assign_one :: "props \<Rightarrow> props \<Rightarrow> props" where
  "assign_one target src = foldl (\<lambda>t (k, v). put_prop k v t) target (own_props src)"

definition assign :: "props \<Rightarrow> props list \<Rightarrow> props" where
  "assign target srcs = foldl assign_one target srcs"

text \<open>
  The string a value becomes when it is used as a property key (\<open>sockets[v]\<close>). An Array
  joins its elements with commas, \<open>undefined\<close> and \<open>null\<close> elements giving the empty
  string.
\<close>

fun join_comma :: "string list \<Rightarrow> string" where
  "join_comma [] = []"
| "join_comma [s] = s"
| "join_comma (s # t # ss) = s @ '','' @ join_comma (t # ss)"

function to_key :: "jsval \<Rightarrow> string" where
  "to_key JUndefined = ''undefined''"
| "to_key JNull = ''null''"
| "to_key (JBool b) = (if b then ''true'' else ''false'')"
| "to_key (JNum i) = show_int i"
| "to_key (JStr s) = s"
| "to_key (JObj Plain ps) = ''[object Object]''"
| "to_key (JObj Array ps) =
     join_comma (map (\<lambda>p. if nullish (snd p) then [] else to_key (snd p)) (own_props ps))"
  by pat_completeness auto
termination
proof (relation "measure size")
  fix ps :: props and p
  assume "p \<in> set (own_props ps)"
  moreover have "set (own_props ps) \<subseteq> set ps"
    by (auto simp: own_props_def index_props_def List.map_filter_def split: option.splits)
  ultimately have "p \<in> set ps"
    by blast
  then have "size (snd p) < Suc (size_list (size_prod (\<lambda>x. 0) size) ps)"
    by (induction ps) auto
  then show "(snd p, JObj Array ps) \<in> measure size"
    by simp
qed simp

section \<open>Data model\<close>

text \<open>
  The classes \<open>ClientData\<close>, \<open>Tank\<close> and \<open>Bullet\<close> live in \<open>src/server/lib\<close>, which is not
  among the sources. A session's identity is its socket id: the handler of a connection
  builds its \<open>ClientData\<close> from \<open>socket.id\<close> (line 91), and the note at lines 79-83 says
  the two are the same.
\<close>

type_synonym ident = string

record box =
  box_x :: int
  box_y :: int
  box_w :: int
  box_h :: int

text \<open>
  Modelled from the spec: the object a \<open>forQuadtree()\<close> call returns (the classes that
  define it are missing). Section 3 of the spec: an index entry is a bounding box plus a
  reference to the entity; the property \<open>id\<close>, which line 151 names as the removal key,
  is the entity's identity.
\<close>

record entry =
  ebox :: box
  eid :: ident

text \<open>
  Modelled from the spec: the class \<open>Bullet\<close> (missing). Section 3: a position, of which
  the bounding box is the projection, and an identity.
\<close>

record bullet =
  bid :: ident
  bbox :: box

text \<open>
  Modelled from the spec: the class \<open>Tank\<close> (missing), with the fields server.js reads
  (\<open>screenName\<close>, \<open>kills\<close>, \<open>ammo\<close>, \<open>bullets\<close>) and, from section 3, its identity and
  its bounding box.
\<close>

record tank =
  tid :: ident
  tscreenName :: string
  kills :: int
  ammo :: int
  bullets :: "bullet list"
  tbox :: box

text \<open>Modelled from the spec: \<open>Bullet.forQuadtree()\<close> (missing), the bullet's index entry.\<close>

definition forQuadtree_bullet :: "bullet \<Rightarrow> entry" where
  "forQuadtree_bullet b = \<lparr>ebox = bbox b, eid = bid b\<rparr>"

text \<open>Modelled from the spec: \<open>Tank.forQuadtree()\<close> (missing), the tank's index entry.\<close>

definition forQuadtree :: "tank \<Rightarrow> entry" where
  "forQuadtree t = \<lparr>ebox = tbox t, eid = tid t\<rparr>"

text \<open>
  Modelled from the spec: the class \<open>ClientData\<close> (missing), with the fields server.js
  reads and writes. \<open>startPingTime\<close>, \<open>ping\<close> and \<open>lastHeartbeat\<close> are \<open>None\<close> while the
  property is \<open>undefined\<close> (or the number is \<open>NaN\<close>).
\<close>

record clientData =
  screenName :: jsval
  position :: jsval
  player :: jsval
  tank :: tank
  lastHeartbeat :: "int option"
  startPingTime :: "int option"
  ping :: "int option"

text \<open>
  Modelled from the spec: \<open>config.json\<close> (missing), with the values server.js reads.
  Section 6: world width and height, per-tank ammo capacity, scoreboard length.
\<close>

record config =
  gameWidth :: int
  gameHeight :: int
  tankAmmoCapacity :: int
  scoreBoardLength :: nat

section \<open>The quadtree\<close>

text \<open>
  Modelled from the spec: the quadtree behind \<open>quadtreeManager.getQuadtree()\<close> (an
  external package; \<open>src/server/lib/quadtreeManager\<close> is missing). Section 4.1 of the
  spec: \<open>insert\<close>, \<open>remove\<close> and \<open>query\<close>, the query returning every entry whose box
  intersects the query box; removal with an identity key locates entries by identity,
  removal without one by bounding-box equality; removing an absent entry is a no-op.
  The index is the list of its entries. The second argument of \<open>remove\<close> is absent
  (\<open>NoKey\<close>, line 145) or the string \<open>'id'\<close> (\<open>IdKey\<close>, line 151).
\<close>

type_synonym quadtree = "entry list"

datatype rmkey = NoKey | IdKey

text \<open>Modelled from the spec: \<open>quadtree.put\<close> (missing), the \<open>insert\<close> of section 4.1.\<close>

definition put :: "entry \<Rightarrow> quadtree \<Rightarrow> quadtree" where
  "put e q = q @ [e]"

text \<open>
  Modelled from the spec: \<open>quadtree.remove\<close> (missing). Section 4.1: by identity with the
  key, by bounding-box equality without it; nothing happens when no entry matches.
\<close>

fun remove :: "entry \<Rightarrow> rmkey \<Rightarrow> quadtree \<Rightarrow> quadtree" where
  "remove e NoKey q = filter (\<lambda>x. ebox x \<noteq> ebox e) q"
| "remove e IdKey q = filter (\<lambda>x. eid x \<noteq> eid e) q"



section \<open>Server state\<close>

text \<open>
  \<open>currentClientData\<close> of a connection and the elements of \<open>currentClientDatas\<close> are
  references to the same object, so the objects live in a store keyed by the socket id
  and the array holds references. \<open>world\<close> is what the game logic service can reach:
  the client objects, the array (passed to \<open>gameTick\<close>) and the quadtree.
  \<open>sockets\<close> and \<open>scoreboardList\<close> are variables of server.js alone.
\<close>

record world =
  objs :: "ident \<rightharpoonup> clientData"
  currentClientDatas :: "ident list"
  quadtree :: quadtree

text \<open>What server.js emits: the socket, and the message with its payload.\<close>

datatype emission =
    Welcome ident clientData int int
  | Pingcheck ident
  | Game_objects_update ident props

record server =
  world :: world
  sockets :: "string \<rightharpoonup> ident"
  scoreboardList :: "(string \<times> int) list"
  outbox :: "emission list"

text \<open>
  The state after lines 56-70: no connection, no tracked client, an empty scoreboard;
  \<open>q0\<close> is the quadtree as \<open>gameLogicService.initializeGame()\<close> leaves it.
\<close>

definition initial :: "quadtree \<Rightarrow> server" where
  "initial q0 =
     \<lparr>world = \<lparr>objs = Map.empty, currentClientDatas = [], quadtree = q0\<rparr>,
      sockets = Map.empty, scoreboardList = [], outbox = []\<rparr>"

text \<open>
  A callback ends normally or with an uncaught exception; the effects it had before the
  exception stay. \<open>fst\<close> of an outcome is the exception, if any.
\<close>

type_synonym outcome = "error option \<times> server"

section \<open>Socket event handlers (lines 84-182)\<close>

definition upd_obj :: "ident \<Rightarrow> clientData \<Rightarrow> server \<Rightarrow> server" where
  "upd_obj sid cd st = st\<lparr>world := (world st)\<lparr>objs := (objs (world st))(sid \<mapsto> cd)\<rparr>\<rparr>"

text \<open>
  Line 91: the handler of a new connection builds the client's \<open>ClientData\<close>, here \<open>cd0\<close>,
  which the handlers of that socket then share. socket.io gives every connection an id
  of its own.
\<close>

definition on_connection :: "ident \<Rightarrow> clientData \<Rightarrow> server \<Rightarrow> outcome" where
  "on_connection sid cd0 st = (None, upd_obj sid cd0 st)"

text \<open>
  Lines 102-106. \<open>screenName.substring(0,10)\<close> throws a TypeError unless \<open>screenName\<close> is
  a string: \<open>undefined\<close> and \<open>null\<close> have no properties, and no other JSON value has a
  callable \<open>substring\<close>.
\<close>

definition on_init :: "config \<Rightarrow> ident \<Rightarrow> jsval \<Rightarrow> server \<Rightarrow> outcome" where
  "on_init cfg sid name st =
     (case objs (world st) sid of
        None \<Rightarrow> (None, st)
      | Some cd \<Rightarrow>
          (case name of
             JStr s \<Rightarrow>
               (let cd' = cd\<lparr>screenName := JStr (take 10 s)\<rparr>;
                    st' = upd_obj sid cd' st
                in (None, st'\<lparr>outbox := outbox st' @ [Welcome sid cd' (gameWidth cfg) (gameHeight cfg)]\<rparr>))
           | _ \<Rightarrow> (Some TypeError, st)))"

text \<open>Lines 112-122.\<close>

definition on_welcome_received :: "ident \<Rightarrow> jsval \<Rightarrow> server \<Rightarrow> outcome" where
  "on_welcome_received sid clientUpdatedData st =
     (case objs (world st) sid of
        None \<Rightarrow> (None, st)
      | Some cd \<Rightarrow>
          (case get_prop clientUpdatedData ''player'' of
             Inl e \<Rightarrow> (Some e, st)
           | Inr p \<Rightarrow>
               (let cd' = cd\<lparr>player := p\<rparr>;
                    st1 = upd_obj sid cd' st;
                    st2 = st1\<lparr>world := (world st1)
                            \<lparr>currentClientDatas := currentClientDatas (world st1) @ [sid]\<rparr>\<rparr>
                in case get_prop clientUpdatedData ''id'' of
                     Inl e \<Rightarrow> (Some e, st2)
                   | Inr i \<Rightarrow>
                       (let st3 = st2\<lparr>sockets := (sockets st2)(to_key i \<mapsto> sid)\<rparr>
                        in (None, st3\<lparr>world := (world st3)
                              \<lparr>quadtree := put (forQuadtree (tank cd')) (quadtree (world st3))\<rparr>\<rparr>)))))"

text \<open>Lines 128-130; \<open>now\<close> is \<open>new Date().getTime()\<close>.\<close>

definition on_pongcheck :: "ident \<Rightarrow> int \<Rightarrow> server \<Rightarrow> outcome" where
  "on_pongcheck sid now st =
     (case objs (world st) sid of
        None \<Rightarrow> (None, st)
      | Some cd \<Rightarrow>
          (None, upd_obj sid (cd\<lparr>ping := map_option (\<lambda>t. now - t) (startPingTime cd)\<rparr>) st))"

text \<open>
  Modelled from the spec: \<open>util.findIndex\<close> (\<open>src/server/lib/util\<close> is missing).
  Section 4.2 has the disconnect remove the session from the registry by its identity;
  the caller at lines 154-155 reads the result as the index of the element with the
  given id, \<open>-1\<close> when there is none. An element of the array is a reference, and a
  reference is the object's id.
\<close>

fun findIndex :: "ident list \<Rightarrow> ident \<Rightarrow> int" where
  "findIndex [] i = - 1"
| "findIndex (r # rs) i =
     (if r = i then 0 else (let k = findIndex rs i in if k > - 1 then k + 1 else - 1))"

text \<open>\<open>a.splice(k, 1)\<close> for an index \<open>k\<close> of the array.\<close>

definition splice1 :: "nat \<Rightarrow> 'a list \<Rightarrow> 'a list" where
  "splice1 k xs = take k xs @ drop (Suc k) xs"

text \<open>
  Lines 144-151: the calls of \<open>quadtree.remove\<close> the disconnect handler makes, in order,
  each with the entry and the key it passes.
\<close>

definition disconnect_removals :: "clientData \<Rightarrow> (entry \<times> rmkey) list" where
  "disconnect_removals cd =
     map (\<lambda>b. (forQuadtree_bullet b, NoKey)) (bullets (tank cd))
     @ [(forQuadtree (tank cd), IdKey)]"

text \<open>
  Lines 137-163. The log at line 157 reads \<open>currentClientData.player.screenName\<close> after
  the splice; the query at line 160 is only logged.
\<close>

definition on_disconnect :: "ident \<Rightarrow> server \<Rightarrow> outcome" where
  "on_disconnect sid st =
     (case objs (world st) sid of
        None \<Rightarrow> (None, st)
      | Some cd \<Rightarrow>
          (let w = world st;
               q = foldl (\<lambda>q (e, k). remove e k q) (quadtree w) (disconnect_removals cd);
               st1 = st\<lparr>world := w\<lparr>quadtree := q\<rparr>\<rparr>;
               playerIndex = findIndex (currentClientDatas w) sid
           in if playerIndex > - 1
              then (let st2 = st1\<lparr>world := (world st1)
                       \<lparr>currentClientDatas := splice1 (nat playerIndex) (currentClientDatas w)\<rparr>\<rparr>
                    in case get_prop (player cd) ''screenName'' of
                         Inl e \<Rightarrow> (Some e, st2)
                       | Inr n \<Rightarrow> (None, st2))
              else (None, st1)))"

text \<open>Lines 173-176.\<close>

definition on_client_checkin :: "ident \<Rightarrow> jsval \<Rightarrow> int \<Rightarrow> server \<Rightarrow> outcome" where
  "on_client_checkin sid clientCheckinData now st =
     (case objs (world st) sid of
        None \<Rightarrow> (None, st)
      | Some cd \<Rightarrow>
          (case set_prop (player cd) ''userInput'' clientCheckinData of
             Inl e \<Rightarrow> (Some e, st)
           | Inr p \<Rightarrow> (None, upd_obj sid (cd\<lparr>player := p, lastHeartbeat := Some now\<rparr>) st)))"

text \<open>Lines 178-181.\<close>

definition on_windowResized :: "ident \<Rightarrow> jsval \<Rightarrow> server \<Rightarrow> outcome" where
  "on_windowResized sid data st =
     (case objs (world st) sid of
        None \<Rightarrow> (None, st)
      | Some cd \<Rightarrow>
          (case get_prop data ''screenWidth'' of
             Inl e \<Rightarrow> (Some e, st)
           | Inr w \<Rightarrow>
               (case set_prop (player cd) ''screenWidth'' w of
                  Inl e \<Rightarrow> (Some e, st)
                | Inr p1 \<Rightarrow>
                    (let st1 = upd_obj sid (cd\<lparr>player := p1\<rparr>) st
                     in case get_prop data ''screenHeight'' of
                          Inl e \<Rightarrow> (Some e, st1)
                        | Inr h \<Rightarrow>
                            (case set_prop p1 ''screenHeight'' h of
                               Inl e \<Rightarrow> (Some e, st1)
                             | Inr p2 \<Rightarrow> (None, upd_obj sid (cd\<lparr>player := p2\<rparr>) st))))))"

section \<open>Game functions and loops (lines 192-291)\<close>

text \<open>
  Lines 192-197. \<open>forEach\<close> visits the references of the array in order; an uncaught
  exception ends the loop. \<open>sockets[clientData.id]\<close> is \<open>undefined\<close> when the map has no
  socket under the client's id, and \<open>.emit\<close> on it throws.
\<close>

fun checkPing_loop :: "int \<Rightarrow> ident list \<Rightarrow> server \<Rightarrow> outcome" where
  "checkPing_loop now [] st = (None, st)"
| "checkPing_loop now (r # rs) st =
     (case objs (world st) r of
        None \<Rightarrow> (Some TypeError, st)
      | Some cd \<Rightarrow>
          (let st1 = upd_obj r (cd\<lparr>startPingTime := Some now\<rparr>) st
           in case sockets st1 r of
                None \<Rightarrow> (Some TypeError, st1)
              | Some sock \<Rightarrow>
                  checkPing_loop now rs (st1\<lparr>outbox := outbox st1 @ [Pingcheck sock]\<rparr>)))"

definition checkPing :: "int \<Rightarrow> server \<Rightarrow> outcome" where
  "checkPing now st = checkPing_loop now (currentClientDatas (world st)) st"

text \<open>
  The external collaborators of the loops: \<open>gameLogicService.gameTick\<close>, given the
  client, its socket (or \<open>undefined\<close>) and what it can reach of the state, and
  \<open>quadtreeManager.queryGameObjects\<close>, given the values the query area is computed from
  (\<open>position.x\<close>, \<open>position.y\<close>, \<open>player.screenWidth\<close>, \<open>player.screenHeight\<close>) and the
  quadtree. Neither is among the sources; they are parameters.
\<close>

record services =
  cfg :: config
  gameTick_service :: "ident \<Rightarrow> ident option \<Rightarrow> world \<Rightarrow> error + world"
  queryGameObjects :: "jsval \<Rightarrow> jsval \<Rightarrow> jsval \<Rightarrow> jsval \<Rightarrow> quadtree \<Rightarrow> props"

text \<open>
  Lines 203-217. The index runs from \<open>length - 1\<close> down to \<open>0\<close>; the array is read
  again at each round, and an index past its end gives \<open>undefined\<close>, whose \<open>.id\<close> throws.
\<close>

definition gameTick :: "services \<Rightarrow> ident \<Rightarrow> server \<Rightarrow> outcome" where
  "gameTick sv r st =
     (case objs (world st) r of
        None \<Rightarrow> (Some TypeError, st)
      | Some cd \<Rightarrow>
          (case gameTick_service sv r (sockets st r) (world st) of
             Inl e \<Rightarrow> (Some e, st)
           | Inr w \<Rightarrow> (None, st\<lparr>world := w\<rparr>)))"

fun gameObjectUpdater_from :: "services \<Rightarrow> nat \<Rightarrow> server \<Rightarrow> outcome" where
  "gameObjectUpdater_from sv 0 st = (None, st)"
| "gameObjectUpdater_from sv (Suc i) st =
     (if i < length (currentClientDatas (world st))
      then (case gameTick sv (currentClientDatas (world st) ! i) st of
              (None, st') \<Rightarrow> gameObjectUpdater_from sv i st'
            | (Some e, st') \<Rightarrow> (Some e, st'))
      else (Some TypeError, st))"

definition gameObjectUpdater :: "services \<Rightarrow> server \<Rightarrow> outcome" where
  "gameObjectUpdater sv st =
     gameObjectUpdater_from sv (length (currentClientDatas (world st))) st"

text \<open>Lines 222-269. An array value: its elements under the keys \<open>0\<close>, \<open>1\<close>, ...\<close>

definition js_array :: "jsval list \<Rightarrow> jsval" where
  "js_array xs = JObj Array (zip (map show_nat [0 ..< length xs]) xs)"

definition scoreboard_js :: "(string \<times> int) list \<Rightarrow> jsval" where
  "scoreboard_js sl =
     js_array (map (\<lambda>(n, k). JObj Plain [(''screenName'', JStr n), (''kills'', JNum k)]) sl)"

text \<open>
  The object passed to \<open>emit\<close> at lines 259-267 for one client. Reading \<open>position.x\<close> or
  \<open>player.screenWidth\<close> throws when \<open>position\<close> or \<open>player\<close> is \<open>undefined\<close> or \<open>null\<close>.
\<close>

definition snapshot :: "services \<Rightarrow> server \<Rightarrow> clientData \<Rightarrow> error + props" where
  "snapshot sv st cd =
     (case get_prop (position cd) ''x'' of Inl e \<Rightarrow> Inl e | Inr px \<Rightarrow>
      case get_prop (player cd) ''screenWidth'' of Inl e \<Rightarrow> Inl e | Inr sw \<Rightarrow>
      case get_prop (position cd) ''y'' of Inl e \<Rightarrow> Inl e | Inr py \<Rightarrow>
      case get_prop (player cd) ''screenHeight'' of Inl e \<Rightarrow> Inl e | Inr sh \<Rightarrow>
        (let perspective = [(''perspective'', JObj Plain [(''x'', px), (''y'', py)])];
             ammo = [(''ammo'', JObj Plain [(''capacity'', JNum (tankAmmoCapacity (cfg sv))),
                                            (''count'', JNum (ammo (tank cd)))])]
         in Inr (assign []
                  [perspective,
                   queryGameObjects sv px py sw sh (quadtree (world st)),
                   ammo,
                   [(''scoreboard'', scoreboard_js (scoreboardList st))]])))"

fun clientUpdater_loop :: "services \<Rightarrow> ident list \<Rightarrow> server \<Rightarrow> outcome" where
  "clientUpdater_loop sv [] st = (None, st)"
| "clientUpdater_loop sv (r # rs) st =
     (case objs (world st) r of
        None \<Rightarrow> (Some TypeError, st)
      | Some cd \<Rightarrow>
          (case snapshot sv st cd of
             Inl e \<Rightarrow> (Some e, st)
           | Inr msg \<Rightarrow>
               (case sockets st r of
                  None \<Rightarrow> (Some TypeError, st)
                | Some sock \<Rightarrow>
                    clientUpdater_loop sv rs
                      (st\<lparr>outbox := outbox st @ [Game_objects_update sock msg]\<rparr>))))"

definition clientUpdater :: "services \<Rightarrow> server \<Rightarrow> outcome" where
  "clientUpdater sv st = clientUpdater_loop sv (currentClientDatas (world st)) st"

text \<open>
  The package \<open>heap\<close>, whose \<open>Heap.nlargest\<close> line 273 calls, is not among the sources.
  Section 4.4 names what it does: a bounded selection through a min-heap of size K. The
  definitions below follow the functions of the package one by one; an array is a list,
  a function that updates the array in place returns the updated list, and every index
  they read is inside the array.
\<close>

text \<open>
  Modelled from the spec: the loop of \<open>_siftdown(array, startpos, pos, cmp)\<close> (missing).
  The item moves towards \<open>startpos\<close> while it compares lower than its parent; the parents
  it passes move one level down.
\<close>

function siftdown_loop ::
  "('a \<Rightarrow> 'a \<Rightarrow> int) \<Rightarrow> 'a \<Rightarrow> nat \<Rightarrow> 'a list \<Rightarrow> nat \<Rightarrow> 'a list" where
  "siftdown_loop cmp newitem startpos array pos =
     (if pos > startpos
      then (let parentpos = (pos - 1) div 2;
                parent = array ! parentpos
            in if cmp newitem parent < 0
               then siftdown_loop cmp newitem startpos (array[pos := parent]) parentpos
               else array[pos := newitem])
      else array[pos := newitem])"
  by pat_completeness auto
termination
  by (relation "measure (\<lambda>(cmp, newitem, startpos, array, pos). pos)") auto

declare siftdown_loop.simps [simp del]

text \<open>
  Modelled from the spec: \<open>_siftdown(array, startpos, pos, cmp)\<close> (missing), the step of the
  min-heap of Section 4.4 that moves the item at \<open>pos\<close> up to its place.
\<close>

definition siftdown :: "('a \<Rightarrow> 'a \<Rightarrow> int) \<Rightarrow> 'a list \<Rightarrow> nat \<Rightarrow> nat \<Rightarrow> 'a list" where
  "siftdown cmp array startpos pos = siftdown_loop cmp (array ! pos) startpos array pos"

text \<open>
  Modelled from the spec: the loop of \<open>_siftup(array, pos, cmp)\<close> (missing). The lower child
  (the right one when the two compare equal) moves up until the position is a leaf; the
  result is the array and the leaf.
\<close>

function siftup_loop :: "('a \<Rightarrow> 'a \<Rightarrow> int) \<Rightarrow> 'a list \<Rightarrow> nat \<Rightarrow> 'a list \<times> nat" where
  "siftup_loop cmp array pos =
     (if 2 * pos + 1 < length array
      then (let childpos = 2 * pos + 1;
                rightpos = childpos + 1;
                childpos = (if rightpos < length array \<and>
                               \<not> cmp (array ! childpos) (array ! rightpos) < 0
                            then rightpos else childpos)
            in siftup_loop cmp (array[pos := array ! childpos]) childpos)
      else (array, pos))"
  by pat_completeness auto
termination
  by (relation "measure (\<lambda>(cmp, array, pos). length array - pos)") (auto simp: Let_def)

declare siftup_loop.simps [simp del]

text \<open>
  Modelled from the spec: \<open>_siftup(array, pos, cmp)\<close> (missing), the step of the min-heap of
  Section 4.4 that makes the subtree at \<open>pos\<close> a heap: the item goes to a leaf and from
  there up to its place.
\<close>

definition siftup :: "('a \<Rightarrow> 'a \<Rightarrow> int) \<Rightarrow> 'a list \<Rightarrow> nat \<Rightarrow> 'a list" where
  "siftup cmp array pos =
     (let newitem = array ! pos;
          (array', pos') = siftup_loop cmp array pos
      in siftdown cmp (array'[pos' := newitem]) pos pos')"

text \<open>
  Modelled from the spec: \<open>heapify(array, cmp)\<close> (missing), which builds the min-heap of
  Section 4.4 from the inner positions, the last one first.
\<close>

definition heapify :: "('a \<Rightarrow> 'a \<Rightarrow> int) \<Rightarrow> 'a list \<Rightarrow> 'a list" where
  "heapify cmp array = foldl (\<lambda>a i. siftup cmp a i) array (rev [0 ..< length array div 2])"

text \<open>
  Modelled from the spec: \<open>heappushpop(array, item, cmp)\<close> (missing). An item that compares
  higher than the root of the min-heap of Section 4.4 replaces it; the result is the item
  that leaves and the heap.
\<close>

definition heappushpop :: "('a \<Rightarrow> 'a \<Rightarrow> int) \<Rightarrow> 'a list \<Rightarrow> 'a \<Rightarrow> 'a \<times> 'a list" where
  "heappushpop cmp array item =
     (if array \<noteq> [] \<and> cmp (array ! 0) item < 0
      then (array ! 0, siftup cmp (array[0 := item]) 0)
      else (item, array))"

text \<open>
  Modelled from the spec: \<open>Array.prototype.sort(cmp)\<close> (built in), with which the package
  orders the K selected elements of Section 4.4: ascending under the comparator, elements
  that compare equal in the order they had.
\<close>

fun insort_by :: "('a \<Rightarrow> 'a \<Rightarrow> int) \<Rightarrow> 'a \<Rightarrow> 'a list \<Rightarrow> 'a list" where
  "insort_by cmp x [] = [x]"
| "insort_by cmp x (y # ys) = (if cmp x y \<le> 0 then x # y # ys else y # insort_by cmp x ys)"

definition sort_by :: "('a \<Rightarrow> 'a \<Rightarrow> int) \<Rightarrow> 'a list \<Rightarrow> 'a list" where
  "sort_by cmp xs = foldr (insort_by cmp) xs []"

text \<open>
  Modelled from the spec: \<open>Heap.nlargest(array, n, cmp)\<close> (missing). Section 4.4: a bounded
  selection through a min-heap of size K. The first \<open>n\<close> elements are made a heap, every
  other element is pushed and the lowest popped, and the heap is returned as
  \<open>result.sort(cmp).reverse()\<close>.
\<close>

definition nlargest :: "'a list \<Rightarrow> nat \<Rightarrow> ('a \<Rightarrow> 'a \<Rightarrow> int) \<Rightarrow> 'a list" where
  "nlargest array n cmp =
     (let result = take n array
      in if result = [] then result
         else rev (sort_by cmp
                (foldl (\<lambda>r elem. snd (heappushpop cmp r elem)) (heapify cmp result)
                   (drop n array))))"

text \<open>Lines 271-277. \<open>clientData.tank\<close> throws on a reference that holds no object.\<close>

fun tanks_of :: "world \<Rightarrow> ident list \<Rightarrow> error + tank list" where
  "tanks_of w [] = Inr []"
| "tanks_of w (r # rs) =
     (case objs w r of
        None \<Rightarrow> Inl TypeError
      | Some cd \<Rightarrow> (case tanks_of w rs of Inl e \<Rightarrow> Inl e | Inr ts \<Rightarrow> Inr (tank cd # ts)))"

definition updateScoreboard :: "config \<Rightarrow> server \<Rightarrow> outcome" where
  "updateScoreboard c st =
     (case tanks_of (world st) (currentClientDatas (world st)) of
        Inl e \<Rightarrow> (Some e, st)
      | Inr ts \<Rightarrow>
          (None, st\<lparr>scoreboardList :=
             map (\<lambda>t. (tscreenName t, kills t))
               (nlargest ts
                  (min (length (currentClientDatas (world st))) (scoreBoardLength c))
                  (\<lambda>tank1 tank2. kills tank1 - kills tank2))\<rparr>))"

section \<open>Executions\<close>

text \<open>
  Lines 285-291 register three periodic drivers with \<open>setInterval\<close>. An execution of the
  server is a sequence of callbacks, each run to completion: socket events of the
  connections and ticks of the three drivers. An uncaught exception ends the execution.
\<close>

datatype driver = GameObjectUpdater | ClientUpdater | UpdateScoreboard

datatype event =
    Connection ident clientData
  | Init ident jsval
  | Welcome_received ident jsval
  | Pongcheck ident int
  | Disconnect ident
  | Client_checkin ident jsval int
  | WindowResized ident jsval
  | Tick driver

fun step :: "services \<Rightarrow> event \<Rightarrow> server \<Rightarrow> outcome" where
  "step sv (Connection sid cd0) st = on_connection sid cd0 st"
| "step sv (Init sid name) st = on_init (cfg sv) sid name st"
| "step sv (Welcome_received sid d) st = on_welcome_received sid d st"
| "step sv (Pongcheck sid now) st = on_pongcheck sid now st"
| "step sv (Disconnect sid) st = on_disconnect sid st"
| "step sv (Client_checkin sid d now) st = on_client_checkin sid d now st"
| "step sv (WindowResized sid d) st = on_windowResized sid d st"
| "step sv (Tick GameObjectUpdater) st = gameObjectUpdater sv st"
| "step sv (Tick ClientUpdater) st = clientUpdater sv st"
| "step sv (Tick UpdateScoreboard) st = updateScoreboard (cfg sv) st"

fun run :: "services \<Rightarrow> event list \<Rightarrow> server \<Rightarrow> outcome" where
  "run sv [] st = (None, st)"
| "run sv (ev # evs) st =
     (case step sv ev st of
        (None, st') \<Rightarrow> run sv evs st'
      | (Some e, st') \<Rightarrow> (Some e, st'))"

section \<open>Session states\<close>






section \<open>Observations on executions\<close>

text \<open>The messages a callback added to the outbox, and what is read off a message.\<close>

definition new_emissions :: "server \<Rightarrow> server \<Rightarrow> emission list" where
  "new_emissions st st' = drop (length (outbox st)) (outbox st')"

fun is_pingcheck :: "emission \<Rightarrow> bool" where
  "is_pingcheck (Pingcheck sock) = True"
| "is_pingcheck e = False"

text \<open>The keys of a world snapshot in enumeration order, and its \<open>scoreboard\<close> field.\<close>

fun snapshot_keys :: "emission \<Rightarrow> string list" where
  "snapshot_keys (Game_objects_update sock msg) = own_keys msg"
| "snapshot_keys e = []"

fun scoreboard_field :: "emission \<Rightarrow> jsval option" where
  "scoreboard_field (Game_objects_update sock msg) = map_of msg ''scoreboard''"
| "scoreboard_field e = None"

text \<open>
  What one callback adds to the outbox: welcome messages, and snapshots built in the
  state the callback started in.
\<close>

definition emits_only :: "services \<Rightarrow> server \<Rightarrow> server \<Rightarrow> bool" where
  "emits_only sv st st' =
     (\<exists>news. outbox st' = outbox st @ news \<and>
        (\<forall>e \<in> set news.
           (\<exists>s cd w h. e = Welcome s cd w h) \<or>
           (\<exists>sock cd msg. e = Game_objects_update sock msg \<and> snapshot sv st cd = Inr msg)))"

text \<open>
  A visible-objects payload whose keys are distinct, are no array indices and are none
  of the three names server.js uses for its own fields.
\<close>

definition well_keyed :: "props \<Rightarrow> bool" where
  "well_keyed ps =
     (distinct (map fst ps) \<and>
      list_all (\<lambda>k. array_index k = None \<and> k \<noteq> ''perspective'' \<and> k \<noteq> ''ammo'' \<and>
                  k \<noteq> ''scoreboard'') (map fst ps))"

text \<open>The game logic service leaves \<open>startPingTime\<close> of every client as it is.\<close>

definition keeps_startPingTime :: "services \<Rightarrow> bool" where
  "keeps_startPingTime sv =
     (\<forall>r sock w w' s. gameTick_service sv r sock w = Inr w' \<longrightarrow>
        map_option startPingTime (objs w' s) = map_option startPingTime (objs w s))"

text \<open>Position \<open>p\<close> of an array laid out as a binary tree lies in the subtree at \<open>lo\<close>.\<close>

function under :: "nat \<Rightarrow> nat \<Rightarrow> bool" where
  "under lo p = (if p = lo then True else if lo < p then under lo ((p - 1) div 2) else False)"
  by pat_completeness auto
termination
  by (relation "measure snd") auto

declare under.simps [simp del]

text \<open>
  The array is a min-heap under the key \<open>f\<close> from position \<open>lo\<close> on: no parent at \<open>lo\<close> or
  behind it has a higher key than a child of it.
\<close>

definition heap_from :: "('a \<Rightarrow> int) \<Rightarrow> 'a list \<Rightarrow> nat \<Rightarrow> bool" where
  "heap_from f a lo =
     (\<forall>i c. lo \<le> i \<and> c < length a \<and> (c = 2 * i + 1 \<or> c = 2 * i + 2) \<longrightarrow> f (a ! i) \<le> f (a ! c))"

section \<open>Sample data\<close>

text \<open>Concrete clients, payloads and collaborators, used to run the model.\<close>

definition box0 :: box where
  "box0 = \<lparr>box_x = 10, box_y = 10, box_w = 4, box_h = 4\<rparr>"

definition tank_s1 :: tank where
  "tank_s1 =
     \<lparr>tid = ''s1'', tscreenName = ''anna'', kills = 0, ammo = 7, bullets = [], tbox = box0\<rparr>"

definition client_s1 :: clientData where
  "client_s1 =
     \<lparr>screenName = JUndefined, position = JObj Plain [(''x'', JNum 12), (''y'', JNum 12)],
      player = JUndefined, tank = tank_s1,
      lastHeartbeat = None, startPingTime = None, ping = None\<rparr>"

definition config0 :: config where
  "config0 =
     \<lparr>gameWidth = 1000, gameHeight = 1000, tankAmmoCapacity = 10, scoreBoardLength = 2\<rparr>"

definition ack_s1 :: jsval where
  "ack_s1 =
     JObj Plain [(''id'', JStr ''s1''),
       (''player'', JObj Plain [(''screenWidth'', JNum 800), (''screenHeight'', JNum 600)])]"

definition services0 :: services where
  "services0 =
     \<lparr>cfg = config0,
      gameTick_service = (\<lambda>r sock w. Inr w),
      queryGameObjects = (\<lambda>px py sw sh q. [(''tanks'', js_array [JStr ''s1''])])\<rparr>"

definition connected_s1 :: server where
  "connected_s1 = snd (on_connection ''s1'' client_s1 (initial []))"

definition active_s1 :: server where
  "active_s1 =
     snd (run services0
       [Connection ''s1'' client_s1, Init ''s1'' (JStr ''anna''), Welcome_received ''s1'' ack_s1]
       (initial []))"

text \<open>
  Two tracked clients, each with one bullet in flight; the two bullets have the same
  bounding box.
\<close>

definition box_b :: box where
  "box_b = \<lparr>box_x = 50, box_y = 50, box_w = 1, box_h = 1\<rparr>"

definition bullet_s1 :: bullet where
  "bullet_s1 = \<lparr>bid = ''s1-b1'', bbox = box_b\<rparr>"

definition bullet_s2 :: bullet where
  "bullet_s2 = \<lparr>bid = ''s2-b1'', bbox = box_b\<rparr>"

definition shooter_s1 :: clientData where
  "shooter_s1 =
     client_s1\<lparr>screenName := JStr ''anna'',
       player := JObj Plain [(''screenWidth'', JNum 800), (''screenHeight'', JNum 600)],
       tank := tank_s1\<lparr>ammo := 6, bullets := [bullet_s1]\<rparr>\<rparr>"

definition tank_s2 :: tank where
  "tank_s2 =
     \<lparr>tid = ''s2'', tscreenName = ''bob'', kills = 3, ammo = 6, bullets = [bullet_s2],
      tbox = \<lparr>box_x = 80, box_y = 80, box_w = 4, box_h = 4\<rparr>\<rparr>"

definition shooter_s2 :: clientData where
  "shooter_s2 =
     \<lparr>screenName = JStr ''bob'', position = JObj Plain [(''x'', JNum 82), (''y'', JNum 82)],
      player = JObj Plain [(''screenWidth'', JNum 800), (''screenHeight'', JNum 600)],
      tank = tank_s2, lastHeartbeat = None, startPingTime = None, ping = None\<rparr>"

definition duel :: server where
  "duel =
     \<lparr>world =
        \<lparr>objs = [''s1'' \<mapsto> shooter_s1, ''s2'' \<mapsto> shooter_s2],
         currentClientDatas = [''s1'', ''s2''],
         quadtree = [forQuadtree (tank shooter_s1), forQuadtree tank_s2,
                     forQuadtree_bullet bullet_s1, forQuadtree_bullet bullet_s2]\<rparr>,
      sockets = [''s1'' \<mapsto> ''s1'', ''s2'' \<mapsto> ''s2''],
      scoreboardList = [], outbox = []\<rparr>"

text \<open>The tracked client \<open>s1\<close> after a scoreboard refresh.\<close>

definition scored_s1 :: server where
  "scored_s1 = snd (updateScoreboard config0 active_s1)"

text \<open>Four tracked clients with 5, 3, 9 and 5 kills.\<close>

definition scorer :: "string \<Rightarrow> int \<Rightarrow> clientData" where
  "scorer n k = client_s1\<lparr>tank := tank_s1\<lparr>tid := n, tscreenName := n, kills := k\<rparr>\<rparr>"

definition arena :: server where
  "arena =
     \<lparr>world =
        \<lparr>objs = [''ann'' \<mapsto> scorer ''ann'' 5, ''bob'' \<mapsto> scorer ''bob'' 3,
                 ''cy'' \<mapsto> scorer ''cy'' 9, ''dee'' \<mapsto> scorer ''dee'' 5],
         currentClientDatas = [''ann'', ''bob'', ''cy'', ''dee''],
         quadtree = []\<rparr>,
      sockets = Map.empty, scoreboardList = [], outbox = []\<rparr>"

text \<open>Executions of the one client \<open>s1\<close>.\<close>

definition evs_s1 :: "event list" where
  "evs_s1 =
     [Connection ''s1'' client_s1, Init ''s1'' (JStr ''anna''), Welcome_received ''s1'' ack_s1,
      Tick GameObjectUpdater, Tick ClientUpdater]"

definition evs_after_s1 :: "event list" where
  "evs_after_s1 =
     [Pongcheck ''s1'' 9, Client_checkin ''s1'' (JStr ''up'') 10,
      Tick GameObjectUpdater, Tick ClientUpdater, Tick UpdateScoreboard]"

text \<open>
  Quadtree managers whose payload has a key named \<open>ammo\<close>, and whose payload is keyed
  by an array index.
\<close>

definition clash_services :: services where
  "clash_services =
     services0\<lparr>queryGameObjects :=
       (\<lambda>px py sw sh q. [(''ammo'', JNum 0), (''tanks'', js_array [JStr ''s1''])])\<rparr>"

definition array_services :: services where
  "array_services =
     services0\<lparr>queryGameObjects := (\<lambda>px py sw sh q. [(''0'', JStr ''s1'')])\<rparr>"






section \<open>Auxiliary facts\<close>

lemma map_of_put_prop: "map_of (put_prop k v ps) k = Some v"
  by (induction ps) auto







lemma connected_s1_obj: "objs (world connected_s1) ''s1'' = Some client_s1"
  by (simp add: connected_s1_def on_connection_def upd_obj_def initial_def)

lemma active_s1_obj:
  "objs (world active_s1) ''s1'' =
     Some (client_s1\<lparr>screenName := JStr ''anna'',
       player := JObj Plain [(''screenWidth'', JNum 800), (''screenHeight'', JNum 600)]\<rparr>)"
  by (simp add: active_s1_def services0_def on_connection_def on_init_def
      on_welcome_received_def upd_obj_def initial_def Let_def ack_s1_def)


subsection \<open>The min-heap and the selection\<close>

lemma under_refl: "under lo lo"
  by (simp add: under.simps)

lemma under_ge: "under lo p \<Longrightarrow> lo \<le> p"
  by (subst (asm) under.simps) (auto split: if_splits)

lemma under_parent: "under lo p \<Longrightarrow> p \<noteq> lo \<Longrightarrow> under lo ((p - 1) div 2)"
  by (subst (asm) under.simps) (auto split: if_splits)

lemma under_child:
  assumes "under lo p" and "c = 2 * p + 1 \<or> c = 2 * p + 2"
  shows "under lo c"
proof -
  from assms(2) have "(c - 1) div 2 = p" by auto
  moreover from under_ge [OF assms(1)] assms(2) have "lo < c" by auto
  ultimately show ?thesis using assms(1) by (subst under.simps) simp
qed

lemma child_of_parent:
  "0 < p \<Longrightarrow> p = 2 * ((p - 1) div 2) + 1 \<or> p = 2 * ((p - 1) div 2) + 2" for p :: nat
  by presburger

lemma parent_less: "0 < p \<Longrightarrow> (p - 1) div 2 < p" for p :: nat
  by presburger

lemma mset_move:
  assumes "i < length xs" and "j < length xs" and "i \<noteq> j"
  shows "mset (xs[i := xs ! j, j := x]) = mset (xs[i := x])"
proof -
  let ?b = "xs[i := x]"
  have "mset (?b[i := ?b ! j, j := ?b ! i]) = mset ?b"
    using assms by (intro mset_swap) simp_all
  moreover have "?b[i := ?b ! j, j := ?b ! i] = xs[i := xs ! j, j := x]"
    using assms by simp
  ultimately show ?thesis by simp
qed


lemma siftup_loop_inv:
  fixes f :: "'a \<Rightarrow> int"
  assumes "p < length a" and "under lo p"
    and "\<forall>i c. lo \<le> i \<and> c < length a \<and> (c = 2 * i + 1 \<or> c = 2 * i + 2) \<and> \<not> (i = lo \<and> p = lo)
           \<longrightarrow> f (a ! i) \<le> f (a ! c)"
    and "siftup_loop (\<lambda>x y. f x - f y) a p = (a', p')"
  shows "length a' = length a \<and> p' < length a \<and> under lo p' \<and> length a \<le> 2 * p' + 1 \<and>
         heap_from f a' lo \<and> (\<forall>x. mset (a'[p' := x]) = mset (a[p := x]))"
  using assms
proof (induction "length a - p" arbitrary: a p rule: less_induct)
  case less
  note inv = less.prems(3)
  show ?case
  proof (cases "2 * p + 1 < length a")
    case False
    with less.prems(4) have res: "a' = a" "p' = p"
      by (simp_all add: siftup_loop.simps)
    have "heap_from f a lo"
      unfolding heap_from_def
    proof (intro allI impI)
      fix i c
      assume h: "lo \<le> i \<and> c < length a \<and> (c = 2 * i + 1 \<or> c = 2 * i + 2)"
      with False have "i \<noteq> p" by auto
      with h inv show "f (a ! i) \<le> f (a ! c)" by blast
    qed
    with res False less.prems(1,2) show ?thesis by simp
  next
    case True
    define c where "c = (if 2 * p + 2 < length a \<and> \<not> f (a ! (2 * p + 1)) - f (a ! (2 * p + 2)) < 0
                         then 2 * p + 2 else 2 * p + 1)"
    let ?a = "a[p := a ! c]"
    have c_child: "c = 2 * p + 1 \<or> c = 2 * p + 2" and c_len: "c < length a"
      using True by (auto simp: c_def)
    have c_min: "\<forall>s. s < length a \<and> (s = 2 * p + 1 \<or> s = 2 * p + 2) \<longrightarrow> f (a ! c) \<le> f (a ! s)"
      using True by (auto simp: c_def)
    have rec: "siftup_loop (\<lambda>x y. f x - f y) a p = siftup_loop (\<lambda>x y. f x - f y) ?a c"
      using True by (subst siftup_loop.simps) (auto simp: c_def Let_def)
    have lo_p: "lo \<le> p" using less.prems(2) by (rule under_ge)
    have inv': "\<forall>i s. lo \<le> i \<and> s < length ?a \<and> (s = 2 * i + 1 \<or> s = 2 * i + 2) \<and> \<not> (i = lo \<and> c = lo)
           \<longrightarrow> f (?a ! i) \<le> f (?a ! s)"
    proof (intro allI impI)
      fix i s
      assume h: "lo \<le> i \<and> s < length ?a \<and> (s = 2 * i + 1 \<or> s = 2 * i + 2) \<and> \<not> (i = lo \<and> c = lo)"
      then have s_len: "s < length a" and sc: "s = 2 * i + 1 \<or> s = 2 * i + 2" and lo_i: "lo \<le> i"
        by simp_all
      consider (parent) "i = p" | (child) "s = p" | (other) "i \<noteq> p" "s \<noteq> p" by blast
      then show "f (?a ! i) \<le> f (?a ! s)"
      proof cases
        case parent
        with sc have "s \<noteq> p" by auto
        with parent s_len sc c_min less.prems(1) show ?thesis by simp
      next
        case child
        with sc have ip: "i \<noteq> p" and "i < p" by auto
        with lo_i have "p \<noteq> lo" by simp
        with inv lo_p c_len c_child have "f (a ! p) \<le> f (a ! c)" by blast
        moreover from inv lo_i child less.prems(1) sc ip have "f (a ! i) \<le> f (a ! p)" by blast
        ultimately show ?thesis using child ip less.prems(1) by simp
      next
        case other
        with inv lo_i s_len sc have "f (a ! i) \<le> f (a ! s)" by blast
        with other show ?thesis by simp
      qed
    qed
    from less.prems(4) rec have res: "siftup_loop (\<lambda>x y. f x - f y) ?a c = (a', p')" by simp
    have "length ?a - c < length a - p"
      using c_child c_len by auto
    from less.hyps [OF this _ under_child [OF less.prems(2) c_child] inv' res] c_len
    have ih: "length a' = length a \<and> p' < length a \<and> under lo p' \<and> length a \<le> 2 * p' + 1 \<and>
         heap_from f a' lo \<and> (\<forall>x. mset (a'[p' := x]) = mset (?a[c := x]))"
      by simp
    moreover have "mset (?a[c := x]) = mset (a[p := x])" for x
      using c_child c_len less.prems(1) by (intro mset_move) auto
    ultimately show ?thesis by simp
  qed
qed


lemma siftdown_loop_inv:
  fixes f :: "'a \<Rightarrow> int"
  assumes "pos < length a" and "under lo pos"
    and "\<forall>i c. lo \<le> i \<and> c < length a \<and> (c = 2 * i + 1 \<or> c = 2 * i + 2) \<and> c \<noteq> pos \<and> i \<noteq> pos
           \<longrightarrow> f (a ! i) \<le> f (a ! c)"
    and "\<forall>c. c < length a \<and> (c = 2 * pos + 1 \<or> c = 2 * pos + 2) \<longrightarrow> f x \<le> f (a ! c)"
    and "lo < pos \<longrightarrow> (\<forall>c. c < length a \<and> (c = 2 * pos + 1 \<or> c = 2 * pos + 2)
           \<longrightarrow> f (a ! ((pos - 1) div 2)) \<le> f (a ! c))"
  shows "heap_from f (siftdown_loop (\<lambda>x y. f x - f y) x lo a pos) lo \<and>
         length (siftdown_loop (\<lambda>x y. f x - f y) x lo a pos) = length a \<and>
         mset (siftdown_loop (\<lambda>x y. f x - f y) x lo a pos) = mset (a[pos := x])"
  using assms
proof (induction pos arbitrary: a rule: less_induct)
  case (less pos)
  note j1 = less.prems(3) and j2 = less.prems(4) and j3 = less.prems(5)
  let ?q = "(pos - 1) div 2"
  have lo_pos: "lo \<le> pos" using less.prems(2) by (rule under_ge)
  have placed: "heap_from f (a[pos := x]) lo"
    if stop: "lo < pos \<longrightarrow> f (a ! ?q) \<le> f x"
    unfolding heap_from_def
  proof (intro allI impI)
    fix i c
    assume h: "lo \<le> i \<and> c < length (a[pos := x]) \<and> (c = 2 * i + 1 \<or> c = 2 * i + 2)"
    then have c_len: "c < length a" and ic: "c = 2 * i + 1 \<or> c = 2 * i + 2" and lo_i: "lo \<le> i"
      by simp_all
    consider (parent) "i = pos" | (child) "c = pos" | (other) "i \<noteq> pos" "c \<noteq> pos" by blast
    then show "f (a[pos := x] ! i) \<le> f (a[pos := x] ! c)"
    proof cases
      case parent
      with ic have "c \<noteq> pos" by auto
      with parent c_len ic j2 less.prems(1) show ?thesis by simp
    next
      case child
      with ic have ip: "i \<noteq> pos" and iq: "i = ?q" by auto
      from child ic lo_i have "lo < pos" by auto
      with stop iq have "f (a ! i) \<le> f x" by simp
      with child ip less.prems(1) show ?thesis by simp
    next
      case other
      with j1 lo_i c_len ic have "f (a ! i) \<le> f (a ! c)" by blast
      with other show ?thesis by simp
    qed
  qed
  show ?case
  proof (cases "lo < pos \<and> f x - f (a ! ?q) < 0")
    case False
    then have "siftdown_loop (\<lambda>x y. f x - f y) x lo a pos = a[pos := x]"
      by (subst siftdown_loop.simps) (auto simp: Let_def)
    moreover from False have "lo < pos \<longrightarrow> f (a ! ?q) \<le> f x" by auto
    ultimately show ?thesis using placed by simp
  next
    case True
    then have gt: "lo < pos" and lt: "f x < f (a ! ?q)" by auto
    let ?a = "a[pos := a ! ?q]"
    have rec: "siftdown_loop (\<lambda>x y. f x - f y) x lo a pos
                 = siftdown_loop (\<lambda>x y. f x - f y) x lo ?a ?q"
      using True by (subst siftdown_loop.simps) (auto simp: Let_def)
    from gt have pos0: "0 < pos" by simp
    have q_less: "?q < pos" using pos0 by (rule parent_less)
    have q_child: "pos = 2 * ?q + 1 \<or> pos = 2 * ?q + 2" using pos0 by (rule child_of_parent)
    have q_under: "under lo ?q" using under_parent [OF less.prems(2)] gt by simp
    then have lo_q: "lo \<le> ?q" by (rule under_ge)
    have q_len: "?q < length ?a" using q_less less.prems(1) by simp
    have q_kids: "f (a ! ?q) \<le> f (a ! s)"
      if "s < length a" "s = 2 * ?q + 1 \<or> s = 2 * ?q + 2" "s \<noteq> pos" for s
      using lo_q that q_less by (intro j1 [rule_format, of ?q s]) simp
    have j1': "\<forall>i c. lo \<le> i \<and> c < length ?a \<and> (c = 2 * i + 1 \<or> c = 2 * i + 2) \<and> c \<noteq> ?q \<and> i \<noteq> ?q
           \<longrightarrow> f (?a ! i) \<le> f (?a ! c)"
    proof (intro allI impI)
      fix i c
      assume h: "lo \<le> i \<and> c < length ?a \<and> (c = 2 * i + 1 \<or> c = 2 * i + 2) \<and> c \<noteq> ?q \<and> i \<noteq> ?q"
      then have c_len: "c < length a" and ic: "c = 2 * i + 1 \<or> c = 2 * i + 2" and lo_i: "lo \<le> i"
        and iq: "i \<noteq> ?q" by simp_all
      consider (parent) "i = pos" | (child) "c = pos" | (other) "i \<noteq> pos" "c \<noteq> pos" by blast
      then show "f (?a ! i) \<le> f (?a ! c)"
      proof cases
        case parent
        with ic have "c \<noteq> pos" by auto
        with parent c_len ic j3 gt less.prems(1) show ?thesis by simp
      next
        case child
        with ic have "i = ?q" by auto
        with iq show ?thesis by simp
      next
        case other
        with j1 lo_i c_len ic have "f (a ! i) \<le> f (a ! c)" by blast
        with other show ?thesis by simp
      qed
    qed
    have j2': "\<forall>c. c < length ?a \<and> (c = 2 * ?q + 1 \<or> c = 2 * ?q + 2) \<longrightarrow> f x \<le> f (?a ! c)"
    proof (intro allI impI)
      fix c
      assume h: "c < length ?a \<and> (c = 2 * ?q + 1 \<or> c = 2 * ?q + 2)"
      show "f x \<le> f (?a ! c)"
      proof (cases "c = pos")
        case True
        with lt less.prems(1) show ?thesis by simp
      next
        case False
        with h q_kids [of c] have "f (a ! ?q) \<le> f (a ! c)" by simp
        with lt False show ?thesis by simp
      qed
    qed
    have j3': "lo < ?q \<longrightarrow> (\<forall>c. c < length ?a \<and> (c = 2 * ?q + 1 \<or> c = 2 * ?q + 2)
           \<longrightarrow> f (?a ! ((?q - 1) div 2)) \<le> f (?a ! c))"
    proof (intro allI impI)
      fix c
      assume gq: "lo < ?q" and h: "c < length ?a \<and> (c = 2 * ?q + 1 \<or> c = 2 * ?q + 2)"
      let ?g = "(?q - 1) div 2"
      from gq have q0: "0 < ?q" by simp
      have g_less: "?g < ?q" using q0 by (rule parent_less)
      have g_child: "?q = 2 * ?g + 1 \<or> ?q = 2 * ?g + 2" using q0 by (rule child_of_parent)
      have "under lo ?g" using under_parent [OF q_under] gq by simp
      then have lo_g: "lo \<le> ?g" by (rule under_ge)
      have "?q < length a" "?q \<noteq> pos" "?g \<noteq> pos"
        using g_less q_less less.prems(1) by simp_all
      with lo_g g_child have gq_le: "f (a ! ?g) \<le> f (a ! ?q)"
        by (intro j1 [rule_format, of ?g ?q]) simp
      have g_same: "?a ! ?g = a ! ?g" using g_less q_less by simp
      show "f (?a ! ?g) \<le> f (?a ! c)"
      proof (cases "c = pos")
        case True
        with gq_le g_same less.prems(1) show ?thesis by simp
      next
        case False
        with h q_kids [of c] have "f (a ! ?q) \<le> f (a ! c)" by simp
        with gq_le g_same False show ?thesis by simp
      qed
    qed
    from less.IH [OF q_less q_len q_under j1' j2' j3']
    have ih: "heap_from f (siftdown_loop (\<lambda>x y. f x - f y) x lo ?a ?q) lo \<and>
         length (siftdown_loop (\<lambda>x y. f x - f y) x lo ?a ?q) = length ?a \<and>
         mset (siftdown_loop (\<lambda>x y. f x - f y) x lo ?a ?q) = mset (?a[?q := x])" .
    moreover have "mset (?a[?q := x]) = mset (a[pos := x])"
      using q_less less.prems(1) by (intro mset_move) auto
    ultimately show ?thesis by (simp add: rec)
  qed
qed


lemma siftup_heap:
  fixes f :: "'a \<Rightarrow> int"
  assumes pos: "pos < length a" and h: "heap_from f a (Suc pos)"
  shows "heap_from f (siftup (\<lambda>x y. f x - f y) a pos) pos \<and>
         length (siftup (\<lambda>x y. f x - f y) a pos) = length a \<and>
         mset (siftup (\<lambda>x y. f x - f y) a pos) = mset a"
proof -
  let ?cmp = "\<lambda>x y. f x - f y"
  obtain a' p' where sl: "siftup_loop ?cmp a pos = (a', p')" by (cases "siftup_loop ?cmp a pos")
  have pre: "\<forall>i c. pos \<le> i \<and> c < length a \<and> (c = 2 * i + 1 \<or> c = 2 * i + 2) \<and> \<not> (i = pos \<and> pos = pos)
           \<longrightarrow> f (a ! i) \<le> f (a ! c)"
    using h unfolding heap_from_def by (metis Suc_leI le_neq_implies_less)
  from siftup_loop_inv [OF pos under_refl pre sl]
  have len: "length a' = length a" and p': "p' < length a" and u: "under pos p'"
    and leaf: "length a \<le> 2 * p' + 1" and h': "heap_from f a' pos"
    and ms: "\<forall>x. mset (a'[p' := x]) = mset (a[pos := x])"
    by simp_all
  let ?x = "a ! pos"
  let ?b = "a'[p' := ?x]"
  have su: "siftup ?cmp a pos = siftdown_loop ?cmp ?x pos ?b p'"
    using p' len by (simp add: siftup_def sl siftdown_def Let_def)
  have b1: "p' < length ?b" using p' len by simp
  have j1: "\<forall>i c. pos \<le> i \<and> c < length ?b \<and> (c = 2 * i + 1 \<or> c = 2 * i + 2) \<and> c \<noteq> p' \<and> i \<noteq> p'
           \<longrightarrow> f (?b ! i) \<le> f (?b ! c)"
    using h' len unfolding heap_from_def by simp
  have j2: "\<forall>c. c < length ?b \<and> (c = 2 * p' + 1 \<or> c = 2 * p' + 2) \<longrightarrow> f ?x \<le> f (?b ! c)"
    using leaf len by auto
  have j3: "pos < p' \<longrightarrow> (\<forall>c. c < length ?b \<and> (c = 2 * p' + 1 \<or> c = 2 * p' + 2)
           \<longrightarrow> f (?b ! ((p' - 1) div 2)) \<le> f (?b ! c))"
    using leaf len by auto
  from siftdown_loop_inv [OF b1 u j1 j2 j3]
  have "heap_from f (siftdown_loop ?cmp ?x pos ?b p') pos \<and>
        length (siftdown_loop ?cmp ?x pos ?b p') = length ?b \<and>
        mset (siftdown_loop ?cmp ?x pos ?b p') = mset (?b[p' := ?x])" .
  moreover have "mset (?b[p' := ?x]) = mset a" using ms by simp
  ultimately show ?thesis using len by (simp add: su)
qed

lemma heap_from_leaves: "length a div 2 \<le> m \<Longrightarrow> heap_from f a m"
  unfolding heap_from_def by auto

lemma heapify_from:
  fixes f :: "'a \<Rightarrow> int"
  shows "m \<le> length a \<Longrightarrow> heap_from f a m \<Longrightarrow>
     heap_from f (foldl (\<lambda>a i. siftup (\<lambda>x y. f x - f y) a i) a (rev [0 ..< m])) 0 \<and>
     length (foldl (\<lambda>a i. siftup (\<lambda>x y. f x - f y) a i) a (rev [0 ..< m])) = length a \<and>
     mset (foldl (\<lambda>a i. siftup (\<lambda>x y. f x - f y) a i) a (rev [0 ..< m])) = mset a"
proof (induction m arbitrary: a)
  case 0
  then show ?case by simp
next
  case (Suc m)
  let ?a = "siftup (\<lambda>x y. f x - f y) a m"
  from Suc.prems have "m < length a" by simp
  from siftup_heap [OF this Suc.prems(2)]
  have s: "heap_from f ?a m" "length ?a = length a" "mset ?a = mset a" by simp_all
  with Suc.prems have "m \<le> length ?a" by simp
  from Suc.IH [OF this s(1)] s show ?case by simp
qed

lemma heapify_heap:
  fixes f :: "'a \<Rightarrow> int"
  shows "heap_from f (heapify (\<lambda>x y. f x - f y) a) 0 \<and>
         length (heapify (\<lambda>x y. f x - f y) a) = length a \<and>
         mset (heapify (\<lambda>x y. f x - f y) a) = mset a"
  unfolding heapify_def by (intro heapify_from heap_from_leaves) simp_all

lemma heap_root_min:
  fixes f :: "'a \<Rightarrow> int"
  assumes "heap_from f h 0"
  shows "i < length h \<Longrightarrow> f (h ! 0) \<le> f (h ! i)"
proof (induction i rule: less_induct)
  case (less i)
  show ?case
  proof (cases "i = 0")
    case True
    then show ?thesis by simp
  next
    case False
    let ?q = "(i - 1) div 2"
    from False have i0: "0 < i" by simp
    have q: "?q < i" using i0 by (rule parent_less)
    have c: "i = 2 * ?q + 1 \<or> i = 2 * ?q + 2" using i0 by (rule child_of_parent)
    from q less.prems have "f (h ! 0) \<le> f (h ! ?q)" by (intro less.IH) simp_all
    moreover from assms less.prems c have "f (h ! ?q) \<le> f (h ! i)"
      unfolding heap_from_def by blast
    ultimately show ?thesis by simp
  qed
qed

lemma heap_root_least:
  fixes f :: "'a \<Rightarrow> int"
  assumes "heap_from f h 0" and "x \<in> set h"
  shows "f (h ! 0) \<le> f x"
  using assms heap_root_min [of f h] by (auto simp: in_set_conv_nth)

lemma heappushpop_heap:
  fixes f :: "'a \<Rightarrow> int"
  assumes h: "heap_from f h 0"
    and pp: "heappushpop (\<lambda>x y. f x - f y) h item = (r, h')"
  shows "heap_from f h' 0 \<and> length h' = length h \<and>
         add_mset r (mset h') = add_mset item (mset h) \<and>
         (\<forall>x \<in> set h'. f r \<le> f x) \<and>
         (\<forall>b. (\<forall>x \<in> set h. b \<le> f x) \<longrightarrow> (\<forall>x \<in> set h'. b \<le> f x))"
proof (cases "h \<noteq> [] \<and> f (h ! 0) - f item < 0")
  case False
  with pp have r: "r = item" and h': "h' = h" by (auto simp: heappushpop_def)
  have "f item \<le> f x" if "x \<in> set h" for x
  proof -
    from that have "h \<noteq> []" by auto
    with False have "f item \<le> f (h ! 0)" by simp
    also have "\<dots> \<le> f x" using h that by (rule heap_root_least)
    finally show ?thesis .
  qed
  with h r h' show ?thesis by simp
next
  case True
  let ?b = "h[0 := item]"
  from True pp have r: "r = h ! 0" and h': "h' = siftup (\<lambda>x y. f x - f y) ?b 0"
    by (auto simp: heappushpop_def)
  from True have ne: "0 < length ?b" and lt: "f (h ! 0) < f item" by simp_all
  have "heap_from f ?b (Suc 0)"
    using h unfolding heap_from_def by auto
  from siftup_heap [OF ne this]
  have s: "heap_from f h' 0" "length h' = length h" "mset h' = mset ?b"
    by (simp_all add: h')
  from True have msb: "add_mset (h ! 0) (mset ?b) = add_mset item (mset h)"
    by (cases h) simp_all
  have mem: "x = item \<or> x \<in> set h" if "x \<in> set h'" for x
  proof -
    from that have "x \<in># mset h'" by simp
    then have "x \<in> set ?b" unfolding s(3) by simp
    then show ?thesis using set_update_subset_insert [of h 0 item] by auto
  qed
  have low: "f (h ! 0) \<le> f x" if "x \<in> set h'" for x
    using mem [OF that] lt heap_root_least [OF h] by auto
  have bound: "b \<le> f x" if "\<forall>x \<in> set h. b \<le> f x" "x \<in> set h'" for b x
  proof -
    from True have "h ! 0 \<in> set h" by simp
    with that(1) have "b \<le> f (h ! 0)" by blast
    with low [OF that(2)] show ?thesis by simp
  qed
  from s msb low bound show ?thesis by (simp add: r)
qed

lemma pushpop_loop:
  fixes f :: "'a \<Rightarrow> int"
  assumes "heap_from f h0 0"
  shows "\<exists>rest. heap_from f (foldl (\<lambda>r elem. snd (heappushpop (\<lambda>x y. f x - f y) r elem)) h0 xs) 0 \<and>
           length (foldl (\<lambda>r elem. snd (heappushpop (\<lambda>x y. f x - f y) r elem)) h0 xs) = length h0 \<and>
           mset (foldl (\<lambda>r elem. snd (heappushpop (\<lambda>x y. f x - f y) r elem)) h0 xs) + rest
             = mset h0 + mset xs \<and>
           (\<forall>r \<in># rest. \<forall>x \<in> set (foldl (\<lambda>r elem. snd (heappushpop (\<lambda>x y. f x - f y) r elem)) h0 xs).
              f r \<le> f x)"
proof (induction xs rule: rev_induct)
  case Nil
  show ?case using assms by (intro exI [of _ "{#}"]) simp
next
  case (snoc e xs)
  let ?step = "\<lambda>r elem. snd (heappushpop (\<lambda>x y. f x - f y) r elem)"
  let ?h = "foldl ?step h0 xs"
  from snoc.IH obtain rest where
    ih: "heap_from f ?h 0" "length ?h = length h0" "mset ?h + rest = mset h0 + mset xs"
        "\<forall>r \<in># rest. \<forall>x \<in> set ?h. f r \<le> f x"
    by blast
  obtain r h' where pp: "heappushpop (\<lambda>x y. f x - f y) ?h e = (r, h')"
    by (cases "heappushpop (\<lambda>x y. f x - f y) ?h e")
  from heappushpop_heap [OF ih(1) pp]
  have s: "heap_from f h' 0" "length h' = length ?h" "add_mset r (mset h') = add_mset e (mset ?h)"
     "\<forall>x \<in> set h'. f r \<le> f x" "\<forall>b. (\<forall>x \<in> set ?h. b \<le> f x) \<longrightarrow> (\<forall>x \<in> set h'. b \<le> f x)"
    by simp_all
  have fold: "foldl ?step h0 (xs @ [e]) = h'" by (simp add: pp)
  have "mset h' + add_mset r rest = mset h0 + mset (xs @ [e])"
  proof -
    have "mset h' + add_mset r rest = add_mset r (mset h') + rest" by simp
    also have "\<dots> = add_mset e (mset ?h) + rest" by (simp only: s(3))
    also have "\<dots> = add_mset e (mset ?h + rest)" by simp
    also have "\<dots> = mset h0 + mset (xs @ [e])" by (simp only: ih(3)) simp
    finally show ?thesis .
  qed
  moreover have "\<forall>q \<in># add_mset r rest. \<forall>x \<in> set h'. f q \<le> f x"
    using s(4) s(5) ih(4) by auto
  ultimately show ?case
    unfolding fold using s(1) s(2) ih(2) by (intro exI [of _ "add_mset r rest"]) simp
qed

lemma insort_by_key: "insort_by (\<lambda>x y. f x - f y) x ys = insort_key f x ys" for f :: "'a \<Rightarrow> int"
  by (induction ys) simp_all

lemma sort_by_key: "sort_by (\<lambda>x y. f x - f y) xs = sort_key f xs" for f :: "'a \<Rightarrow> int"
  by (induction xs) (simp_all add: sort_by_def sort_key_def insort_by_key)

lemma sorted_desc_rev:
  "sorted (map f xs) \<Longrightarrow> sorted_wrt (\<lambda>a b. f b \<le> f a) (rev xs)" for f :: "'a \<Rightarrow> int"
  by (induction xs) (auto simp: sorted_wrt_append)

lemma nlargest_top:
  fixes f :: "'a \<Rightarrow> int"
  shows "length (nlargest xs n (\<lambda>x y. f x - f y)) = min n (length xs) \<and>
         sorted_wrt (\<lambda>a b. f b \<le> f a) (nlargest xs n (\<lambda>x y. f x - f y)) \<and>
         (\<exists>rest. mset (nlargest xs n (\<lambda>x y. f x - f y)) + rest = mset xs \<and>
            (\<forall>r \<in># rest. \<forall>x \<in> set (nlargest xs n (\<lambda>x y. f x - f y)). f r \<le> f x))"
proof (cases "take n xs = []")
  case True
  then have "nlargest xs n (\<lambda>x y. f x - f y) = []" by (simp add: nlargest_def)
  moreover from True have "min n (length xs) = 0" by auto
  ultimately show ?thesis by simp
next
  case False
  let ?cmp = "\<lambda>x y. f x - f y"
  let ?hp = "heapify ?cmp (take n xs)"
  let ?hq = "foldl (\<lambda>r elem. snd (heappushpop ?cmp r elem)) ?hp (drop n xs)"
  from False have out: "nlargest xs n ?cmp = rev (sort_key f ?hq)"
    by (simp add: nlargest_def Let_def sort_by_key)
  have h0: "heap_from f ?hp 0" "length ?hp = length (take n xs)" "mset ?hp = mset (take n xs)"
    using heapify_heap [of f "take n xs"] by simp_all
  from pushpop_loop [OF h0(1), of "drop n xs"] obtain rest where
    l: "length ?hq = length ?hp" "mset ?hq + rest = mset ?hp + mset (drop n xs)"
       "\<forall>r \<in># rest. \<forall>x \<in> set ?hq. f r \<le> f x"
    by blast
  have "mset (take n xs) + mset (drop n xs) = mset xs"
    by (metis append_take_drop_id mset_append)
  with l(2) h0(3) have ms: "mset ?hq + rest = mset xs" by simp
  have "length (nlargest xs n ?cmp) = min n (length xs)"
    using l(1) h0(2) by (simp add: out min.commute)
  moreover have "sorted_wrt (\<lambda>a b. f b \<le> f a) (nlargest xs n ?cmp)"
    unfolding out by (intro sorted_desc_rev) simp
  moreover have "mset (nlargest xs n ?cmp) + rest = mset xs" using ms by (simp add: out)
  moreover have "\<forall>r \<in># rest. \<forall>x \<in> set (nlargest xs n ?cmp). f r \<le> f x"
    using l(3) by (simp add: out)
  ultimately show ?thesis by blast
qed

lemma tanks_of_length: "tanks_of w rs = Inr ts \<Longrightarrow> length ts = length rs"
  by (induction rs arbitrary: ts) (auto split: option.splits sum.splits)

lemma arena_tanks:
  "tanks_of (world arena) (currentClientDatas (world arena)) =
     Inr [tank (scorer ''ann'' 5), tank (scorer ''bob'' 3), tank (scorer ''cy'' 9),
          tank (scorer ''dee'' 5)]"
  by (simp add: arena_def)

subsection \<open>Emissions, merging and executions\<close>

lemma emits_only_same: "outbox st' = outbox st \<Longrightarrow> emits_only sv st st'"
  by (simp add: emits_only_def)

lemma snapshot_outbox: "snapshot sv (st\<lparr>outbox := ob\<rparr>) cd = snapshot sv st cd"
  by (simp add: snapshot_def split: sum.splits)

lemma clientUpdater_loop_frame:
  "world (snd (clientUpdater_loop sv rs st)) = world st \<and>
   sockets (snd (clientUpdater_loop sv rs st)) = sockets st \<and>
   scoreboardList (snd (clientUpdater_loop sv rs st)) = scoreboardList st"
  by (induction rs arbitrary: st) (auto split: option.splits sum.splits)

lemma clientUpdater_loop_news:
  "\<exists>news. outbox (snd (clientUpdater_loop sv rs st)) = outbox st @ news \<and>
      (\<forall>e \<in> set news. \<exists>sock cd msg.
         e = Game_objects_update sock msg \<and> snapshot sv st cd = Inr msg)"
proof (induction rs arbitrary: st)
  case Nil
  then show ?case by simp
next
  case (Cons r rs)
  show ?case
  proof (cases "objs (world st) r")
    case None
    then show ?thesis by simp
  next
    case (Some cd)
    show ?thesis
    proof (cases "snapshot sv st cd")
      case (Inl e)
      with Some show ?thesis by simp
    next
      case (Inr msg)
      show ?thesis
      proof (cases "sockets st r")
        case None
        with Some Inr show ?thesis by simp
      next
        case (Some sock)
        let ?st = "st\<lparr>outbox := outbox st @ [Game_objects_update sock msg]\<rparr>"
        from Cons.IH [of ?st] obtain news where
          n: "outbox (snd (clientUpdater_loop sv rs ?st)) = outbox ?st @ news"
          and a: "\<forall>e \<in> set news. \<exists>sock cd msg.
             e = Game_objects_update sock msg \<and> snapshot sv st cd = Inr msg"
          by (auto simp: snapshot_outbox)
        have "outbox (snd (clientUpdater_loop sv (r # rs) st))
                = outbox st @ (Game_objects_update sock msg # news)"
          using \<open>objs (world st) r = Some cd\<close> Inr Some n by simp
        moreover have "\<forall>e \<in> set (Game_objects_update sock msg # news). \<exists>sock cd msg.
             e = Game_objects_update sock msg \<and> snapshot sv st cd = Inr msg"
          using a Inr by auto
        ultimately show ?thesis by blast
      qed
    qed
  qed
qed

lemma clientUpdater_loop_emits: "emits_only sv st (snd (clientUpdater_loop sv rs st))"
  using clientUpdater_loop_news [of sv rs st] unfolding emits_only_def by blast

lemma gameObjectUpdater_from_frame:
  "outbox (snd (gameObjectUpdater_from sv i st)) = outbox st \<and>
   scoreboardList (snd (gameObjectUpdater_from sv i st)) = scoreboardList st"
  by (induction i arbitrary: st)
    (auto simp: gameTick_def split: option.splits sum.splits prod.splits)

lemma step_scoreboard:
  "ev \<noteq> Tick UpdateScoreboard \<Longrightarrow> scoreboardList (snd (step sv ev st)) = scoreboardList st"
proof (cases ev)
  case (Tick d)
  assume "ev \<noteq> Tick UpdateScoreboard"
  with Tick show ?thesis
    by (cases d)
      (simp_all add: gameObjectUpdater_def gameObjectUpdater_from_frame clientUpdater_def
        clientUpdater_loop_frame)
qed (auto simp: on_connection_def on_init_def on_welcome_received_def on_pongcheck_def
      on_disconnect_def on_client_checkin_def on_windowResized_def upd_obj_def Let_def
      split: option.splits sum.splits jsval.splits)

lemma step_emits: "emits_only sv st (snd (step sv ev st))"
proof (cases ev)
  case (Init sid name)
  then show ?thesis
    by (auto simp: on_init_def upd_obj_def Let_def emits_only_def
        split: option.splits jsval.splits)
next
  case (Tick d)
  then show ?thesis
    by (cases d)
      (simp_all add: gameObjectUpdater_def gameObjectUpdater_from_frame clientUpdater_def
        clientUpdater_loop_emits emits_only_same updateScoreboard_def split: sum.splits)
qed (auto simp: on_connection_def on_welcome_received_def on_pongcheck_def
      on_disconnect_def on_client_checkin_def on_windowResized_def upd_obj_def Let_def
      intro!: emits_only_same split: option.splits sum.splits)

lemma run_Cons_ok:
  "fst (step sv ev st) = None \<Longrightarrow> run sv (ev # evs) st = run sv evs (snd (step sv ev st))"
  by (cases "step sv ev st") auto

lemma run_Cons_failed:
  "fst (step sv ev st) \<noteq> None \<Longrightarrow> run sv (ev # evs) st = step sv ev st"
  by (cases "step sv ev st") auto

lemma own_props_single: "own_props [(k, v)] = [(k, v)]"
  by (cases "array_index k")
    (simp_all add: own_props_def index_props_def List.map_filter_simps)

lemma assign_last:
  "map_of (assign t (srcs @ [[(k, v)]])) k = Some v"
  by (simp add: assign_def assign_one_def own_props_single map_of_put_prop)

lemma snapshot_shape:
  assumes "snapshot sv st cd = Inr msg"
  shows "\<exists>px py sw sh p a.
           msg = assign [] [[(''perspective'', p)],
                            queryGameObjects sv px py sw sh (quadtree (world st)),
                            [(''ammo'', a)],
                            [(''scoreboard'', scoreboard_js (scoreboardList st))]]"
  using assms by (simp add: snapshot_def Let_def split: sum.splits) blast

lemma snapshot_scoreboard:
  assumes "snapshot sv st cd = Inr msg"
  shows "map_of msg ''scoreboard'' = Some (scoreboard_js (scoreboardList st))"
proof -
  from snapshot_shape [OF assms] obtain px py sw sh p a where
    "msg = assign [] ([[(''perspective'', p)],
                       queryGameObjects sv px py sw sh (quadtree (world st)),
                       [(''ammo'', a)]]
                      @ [[(''scoreboard'', scoreboard_js (scoreboardList st))]])"
    by auto
  then show ?thesis by (simp only: assign_last)
qed

lemma run_keeps_empty_scoreboard:
  assumes "Tick UpdateScoreboard \<notin> set evs" and "scoreboardList st = []"
    and "\<forall>e \<in> set (outbox st). \<forall>sock msg.
           e = Game_objects_update sock msg \<longrightarrow> map_of msg ''scoreboard'' = Some (js_array [])"
  shows "scoreboardList (snd (run sv evs st)) = [] \<and>
         (\<forall>e \<in> set (outbox (snd (run sv evs st))). \<forall>sock msg.
            e = Game_objects_update sock msg \<longrightarrow> map_of msg ''scoreboard'' = Some (js_array []))"
  using assms
proof (induction evs arbitrary: st)
  case Nil
  then show ?case by simp
next
  case (Cons ev evs)
  let ?st = "snd (step sv ev st)"
  from Cons.prems have ne: "ev \<noteq> Tick UpdateScoreboard" and rest: "Tick UpdateScoreboard \<notin> set evs"
    by auto
  have sb: "scoreboardList ?st = []"
    using step_scoreboard [OF ne] Cons.prems(2) by simp
  from step_emits [of sv st ev] obtain news where
    n: "outbox ?st = outbox st @ news"
    and a: "\<forall>e \<in> set news.
       (\<exists>s cd w h. e = Welcome s cd w h) \<or>
       (\<exists>sock cd msg. e = Game_objects_update sock msg \<and> snapshot sv st cd = Inr msg)"
    by (auto simp: emits_only_def)
  have ob: "\<forall>e \<in> set (outbox ?st). \<forall>sock msg.
           e = Game_objects_update sock msg \<longrightarrow> map_of msg ''scoreboard'' = Some (js_array [])"
  proof (intro ballI allI impI)
    fix e sock msg
    assume e: "e \<in> set (outbox ?st)" and g: "e = Game_objects_update sock msg"
    from e n consider "e \<in> set (outbox st)" | "e \<in> set news" by auto
    then show "map_of msg ''scoreboard'' = Some (js_array [])"
    proof cases
      case 1
      with Cons.prems(3) g show ?thesis by blast
    next
      case 2
      with a g obtain cd where "snapshot sv st cd = Inr msg" by auto
      from snapshot_scoreboard [OF this] Cons.prems(2) show ?thesis
        by (simp add: scoreboard_js_def)
    qed
  qed
  show ?case
  proof (cases "fst (step sv ev st) = None")
    case True
    with Cons.IH [OF rest sb ob] show ?thesis by (simp add: run_Cons_ok del: run.simps)
  next
    case False
    then have "run sv (ev # evs) st = step sv ev st"
      by (rule run_Cons_failed)
    with sb ob show ?thesis by (simp del: run.simps)
  qed
qed

lemma index_props_plain:
  "list_all (\<lambda>k. array_index k = None) (map fst ps) \<Longrightarrow> index_props ps = []"
  by (induction ps) (auto simp: index_props_def List.map_filter_simps)

lemma own_props_plain:
  "list_all (\<lambda>k. array_index k = None) (map fst ps) \<Longrightarrow> own_props ps = ps"
  by (simp add: own_props_def index_props_plain list_all_iff filter_id_conv case_prod_unfold)

lemma put_prop_fresh: "k \<notin> fst ` set ps \<Longrightarrow> put_prop k v ps = ps @ [(k, v)]"
  by (induction ps) auto

lemma foldl_put_fresh:
  "distinct (map fst src) \<Longrightarrow> fst ` set src \<inter> fst ` set t = {} \<Longrightarrow>
   foldl (\<lambda>t (k, v). put_prop k v t) t src = t @ src"
proof (induction src arbitrary: t)
  case Nil
  then show ?case by simp
next
  case (Cons p src)
  obtain k v where p: "p = (k, v)" by (cases p)
  from Cons.prems have fresh: "k \<notin> fst ` set t" by (auto simp: p)
  from Cons.prems have "distinct (map fst src)"
    and "fst ` set src \<inter> fst ` set (t @ [(k, v)]) = {}"
    by (auto simp: p)
  from Cons.IH [OF this] fresh show ?case
    by (simp add: p put_prop_fresh)
qed

lemma assign_one_fresh:
  "list_all (\<lambda>k. array_index k = None) (map fst src) \<Longrightarrow> distinct (map fst src) \<Longrightarrow>
   fst ` set src \<inter> fst ` set t = {} \<Longrightarrow> assign_one t src = t @ src"
  by (simp add: assign_one_def own_props_plain foldl_put_fresh)

lemma plain_names:
  "array_index ''perspective'' = None" "array_index ''ammo'' = None"
  "array_index ''scoreboard'' = None"
  by (simp_all add: array_index_def digit_of_def)

lemma merge_order:
  assumes "well_keyed payload"
  shows "own_keys (assign [] [[(''perspective'', p)], payload, [(''ammo'', a)], [(''scoreboard'', s)]])
           = ''perspective'' # map fst payload @ [''ammo'', ''scoreboard'']"
proof -
  from assms have d: "distinct (map fst payload)"
    and pl: "list_all (\<lambda>k. array_index k = None) (map fst payload)"
    and np: "''perspective'' \<notin> fst ` set payload"
    and na: "''ammo'' \<notin> fst ` set payload"
    and ns: "''scoreboard'' \<notin> fst ` set payload"
    by (auto simp: well_keyed_def list_all_iff)
  have 1: "assign_one [] [(''perspective'', p)] = [(''perspective'', p)]"
    by (simp add: assign_one_fresh plain_names)
  have 2: "assign_one [(''perspective'', p)] payload = (''perspective'', p) # payload"
    using d pl np by (simp add: assign_one_fresh)
  have 3: "assign_one ((''perspective'', p) # payload) [(''ammo'', a)]
             = (''perspective'', p) # payload @ [(''ammo'', a)]"
    using na by (simp add: assign_one_fresh plain_names)
  have 4: "assign_one ((''perspective'', p) # payload @ [(''ammo'', a)]) [(''scoreboard'', s)]
             = (''perspective'', p) # payload @ [(''ammo'', a), (''scoreboard'', s)]"
    using ns by (simp add: assign_one_fresh plain_names)
  have all: "list_all (\<lambda>k. array_index k = None)
               (map fst ((''perspective'', p) # payload @ [(''ammo'', a), (''scoreboard'', s)]))"
    using pl by (simp add: plain_names)
  show ?thesis
    unfolding own_keys_def assign_def
    by (simp only: foldl.simps 1 2 3 4 own_props_plain [OF all]) simp
qed

lemma step_no_pingcheck:
  "filter is_pingcheck (outbox (snd (step sv ev st))) = filter is_pingcheck (outbox st)"
proof -
  from step_emits [of sv st ev] obtain news where
    n: "outbox (snd (step sv ev st)) = outbox st @ news"
    and a: "\<forall>e \<in> set news.
       (\<exists>s cd w h. e = Welcome s cd w h) \<or>
       (\<exists>sock cd msg. e = Game_objects_update sock msg \<and> snapshot sv st cd = Inr msg)"
    by (auto simp: emits_only_def)
  from a have "filter is_pingcheck news = []"
    by (auto simp: filter_empty_conv)
  with n show ?thesis by simp
qed

lemma run_no_pingcheck:
  "filter is_pingcheck (outbox (snd (run sv evs st))) = filter is_pingcheck (outbox st)"
proof (induction evs arbitrary: st)
  case Nil
  then show ?case by simp
next
  case (Cons ev evs)
  show ?case
  proof (cases "fst (step sv ev st) = None")
    case True
    then have "run sv (ev # evs) st = run sv evs (snd (step sv ev st))"
      by (rule run_Cons_ok)
    with Cons.IH [of "snd (step sv ev st)"] step_no_pingcheck [of sv ev st]
    show ?thesis by (simp del: run.simps)
  next
    case False
    then have "run sv (ev # evs) st = step sv ev st"
      by (rule run_Cons_failed)
    with step_no_pingcheck [of sv ev st] show ?thesis by (simp del: run.simps)
  qed
qed

lemma gameObjectUpdater_from_startPingTime:
  assumes "keeps_startPingTime sv"
  shows "map_option startPingTime (objs (world (snd (gameObjectUpdater_from sv i st))) s)
           = map_option startPingTime (objs (world st) s)"
proof (induction i arbitrary: st)
  case 0
  then show ?case by simp
next
  case (Suc i)
  show ?case
  proof (cases "i < length (currentClientDatas (world st))")
    case False
    then show ?thesis by simp
  next
    case True
    let ?r = "currentClientDatas (world st) ! i"
    show ?thesis
    proof (cases "objs (world st) ?r")
      case None
      with True show ?thesis by (simp add: gameTick_def)
    next
      case (Some cd)
      show ?thesis
      proof (cases "gameTick_service sv ?r (sockets st ?r) (world st)")
        case (Inl e)
        with True Some show ?thesis by (simp add: gameTick_def)
      next
        case (Inr w)
        with assms have "map_option startPingTime (objs w s)
                           = map_option startPingTime (objs (world st) s)"
          unfolding keeps_startPingTime_def by blast
        with True Some Inr Suc.IH [of "st\<lparr>world := w\<rparr>"] show ?thesis
          by (simp add: gameTick_def)
      qed
    qed
  qed
qed

lemma step_startPingTime:
  assumes "keeps_startPingTime sv" and "\<forall>cd0. ev \<noteq> Connection s cd0"
  shows "map_option startPingTime (objs (world (snd (step sv ev st))) s)
           = map_option startPingTime (objs (world st) s)"
proof (cases ev)
  case (Connection sid cd0)
  with assms(2) have "sid \<noteq> s" by auto
  with Connection show ?thesis by (simp add: on_connection_def upd_obj_def)
next
  case (Tick d)
  then show ?thesis
    by (cases d)
      (simp_all add: gameObjectUpdater_def gameObjectUpdater_from_startPingTime [OF assms(1)]
        clientUpdater_def clientUpdater_loop_frame updateScoreboard_def split: sum.splits)
qed (auto simp: on_init_def on_welcome_received_def on_pongcheck_def
      on_disconnect_def on_client_checkin_def on_windowResized_def upd_obj_def Let_def
      split: option.splits sum.splits jsval.splits)

lemma run_startPingTime:
  assumes "keeps_startPingTime sv" and "\<forall>cd0. Connection s cd0 \<notin> set evs"
  shows "map_option startPingTime (objs (world (snd (run sv evs st))) s)
           = map_option startPingTime (objs (world st) s)"
  using assms(2)
proof (induction evs arbitrary: st)
  case Nil
  then show ?case by simp
next
  case (Cons ev evs)
  from Cons.prems have ne: "\<forall>cd0. ev \<noteq> Connection s cd0"
    and rest: "\<forall>cd0. Connection s cd0 \<notin> set evs" by auto
  note one = step_startPingTime [OF assms(1) ne, of st]
  show ?case
  proof (cases "fst (step sv ev st) = None")
    case True
    then have "run sv (ev # evs) st = run sv evs (snd (step sv ev st))"
      by (rule run_Cons_ok)
    with Cons.IH [OF rest, of "snd (step sv ev st)"] one
    show ?thesis by (simp del: run.simps)
  next
    case False
    then have "run sv (ev # evs) st = step sv ev st"
      by (rule run_Cons_failed)
    with one show ?thesis by (simp del: run.simps)
  qed
qed

subsection \<open>Sessions that stand apart\<close>







lemmas run_defs = services0_def on_connection_def on_init_def on_welcome_received_def
  on_disconnect_def upd_obj_def initial_def Let_def put_def ack_s1_def client_s1_def tank_s1_def
  forQuadtree_def config0_def gameObjectUpdater_def gameTick_def clientUpdater_def snapshot_def
  assign_def assign_one_def own_props_def index_props_def List.map_filter_simps array_index_def
  digit_of_def scoreboard_js_def js_array_def

lemmas run_defs2 = run_defs active_s1_def new_emissions_def own_keys_def show_nat.simps

section \<open>Handshake-init: the display name\<close>

text \<open>
  C6. For a handshake-init message that supplies a display name \<open>s\<close>, the handler ends
  normally and the name stored on the session is \<open>s\<close> cut to its first ten characters:
  a prefix of \<open>s\<close> of length at most 10, and of length exactly 10 when \<open>s\<close> has 15
  characters.
\<close>

theorem init_stores_truncated_name:
  assumes "objs (world st) sid = Some cd"
  shows "fst (on_init c sid (JStr s) st) = None \<and>
         map_option screenName (objs (world (snd (on_init c sid (JStr s) st))) sid)
           = Some (JStr (take 10 s)) \<and>
         prefix (take 10 s) s \<and>
         length (take 10 s) \<le> 10 \<and>
         (length s = 15 \<longrightarrow> length (take 10 s) = 10)"
  using assms by (simp add: on_init_def upd_obj_def Let_def take_is_prefix)

theorem init_stores_truncated_name_witness:
  "objs (world connected_s1) ''s1'' = Some client_s1 \<and>
   length ''ABCDEFGHIJKLMNO'' = 15 \<and>
   fst (on_init config0 ''s1'' (JStr ''ABCDEFGHIJKLMNO'') connected_s1) = None \<and>
   map_option screenName
     (objs (world (snd (on_init config0 ''s1'' (JStr ''ABCDEFGHIJKLMNO'') connected_s1))) ''s1'')
     = Some (JStr ''ABCDEFGHIJ'')"
  using connected_s1_obj
    init_stores_truncated_name [OF connected_s1_obj, of config0 "''ABCDEFGHIJKLMNO''"]
  by simp

section \<open>Malformed messages\<close>

text \<open>
  C4, as the claim states it, fails: a handshake-init message with no display name
  (\<open>undefined\<close>) makes the handler throw a TypeError.
\<close>

theorem init_without_name_throws:
  "fst (on_init config0 ''s1'' JUndefined connected_s1) = Some TypeError"
  by (simp add: on_init_def connected_s1_obj)

text \<open>
  C4, amended. The handlers do not validate their payload. Handshake-init with a string
  as display name ends normally and stores the name cut to ten characters; with any
  other value (a missing name included) it throws a TypeError and leaves the state as
  it was. Input-checkin stores whatever payload it is given as the session's input, a
  missing one (\<open>undefined\<close>) included, replacing the input held before; it throws a
  TypeError, leaving the state as it was, exactly when the session's \<open>player\<close> is not
  an object.
\<close>

theorem handlers_do_not_validate:
  assumes "objs (world st) sid = Some cd"
  shows "(case name of
            JStr s \<Rightarrow>
              fst (on_init c sid name st) = None \<and>
              map_option screenName (objs (world (snd (on_init c sid name st))) sid)
                = Some (JStr (take 10 s))
          | _ \<Rightarrow> on_init c sid name st = (Some TypeError, st)) \<and>
         (if is_object (player cd)
          then fst (on_client_checkin sid d now st) = None \<and>
               map_option (\<lambda>cd'. get_prop (player cd') ''userInput'')
                 (objs (world (snd (on_client_checkin sid d now st))) sid) = Some (Inr d)
          else on_client_checkin sid d now st = (Some TypeError, st))"
proof -
  have a: "case name of
            JStr s \<Rightarrow>
              fst (on_init c sid name st) = None \<and>
              map_option screenName (objs (world (snd (on_init c sid name st))) sid)
                = Some (JStr (take 10 s))
          | _ \<Rightarrow> on_init c sid name st = (Some TypeError, st)"
    using assms by (cases name) (simp_all add: on_init_def upd_obj_def Let_def)
  have b: "if is_object (player cd)
          then fst (on_client_checkin sid d now st) = None \<and>
               map_option (\<lambda>cd'. get_prop (player cd') ''userInput'')
                 (objs (world (snd (on_client_checkin sid d now st))) sid) = Some (Inr d)
          else on_client_checkin sid d now st = (Some TypeError, st)"
    using assms
    by (cases "player cd") (simp_all add: on_client_checkin_def upd_obj_def map_of_put_prop)
  from a b show ?thesis by blast
qed

theorem handlers_do_not_validate_witness:
  "fst (on_init config0 ''s1'' JUndefined active_s1) = Some TypeError \<and>
   fst (on_client_checkin ''s1'' JUndefined 5 active_s1) = None \<and>
   map_option (\<lambda>cd'. get_prop (player cd') ''userInput'')
     (objs (world (snd (on_client_checkin ''s1'' JUndefined 5 active_s1))) ''s1'')
     = Some (Inr JUndefined)"
  using handlers_do_not_validate [OF active_s1_obj, where name = JUndefined and c = config0
      and d = JUndefined and now = 5]
  by simp

section \<open>Disconnect\<close>





text \<open>
  C8 asks that every removal from the quadtree pass an identity key, the removal of each
  bullet on disconnect included. Lines 144-146 call \<open>quadtree.remove\<close> for a bullet with
  no key, while line 151 passes \<open>'id'\<close> for the tank. When \<open>s1\<close> disconnects from the
  state \<open>duel\<close>, the call for its bullet carries no key, and the entry of the bullet of
  \<open>s2\<close>, which has the same bounding box, is gone from the quadtree although \<open>s2\<close> is
  still tracked and still owns the bullet.
\<close>

theorem bullet_removal_passes_no_key:
  "disconnect_removals shooter_s1 =
     [(forQuadtree_bullet bullet_s1, NoKey), (forQuadtree (tank shooter_s1), IdKey)] \<and>
   bullet_s2 \<in> set (bullets (tank shooter_s2)) \<and>
   currentClientDatas (world (snd (on_disconnect ''s1'' duel))) = [''s2''] \<and>
   quadtree (world (snd (on_disconnect ''s1'' duel))) = [forQuadtree tank_s2]"
  by (simp add: on_disconnect_def disconnect_removals_def duel_def shooter_s1_def shooter_s2_def
        client_s1_def tank_s1_def tank_s2_def bullet_s1_def bullet_s2_def forQuadtree_def
        forQuadtree_bullet_def box0_def box_b_def Let_def splice1_def split: sum.splits)

section \<open>Handshake-acknowledgment\<close>

text \<open>
  C5 asks that a repeated handshake-ack leave the session with one slot in
  \<open>currentClientDatas\<close> and its tank with one entry in the quadtree. Lines 117 and 121
  push and put without a check: after two acknowledgments the session holds two slots
  and the tank two entries, and after the disconnect that follows, which splices one
  slot (line 156), the session is still tracked.
\<close>

theorem repeated_ack_registers_twice:
  "fst (run services0
     [Connection ''s1'' client_s1, Init ''s1'' (JStr ''anna''),
      Welcome_received ''s1'' ack_s1, Welcome_received ''s1'' ack_s1] (initial [])) = None \<and>
   currentClientDatas (world (snd (run services0
     [Connection ''s1'' client_s1, Init ''s1'' (JStr ''anna''),
      Welcome_received ''s1'' ack_s1, Welcome_received ''s1'' ack_s1] (initial []))))
     = [''s1'', ''s1''] \<and>
   quadtree (world (snd (run services0
     [Connection ''s1'' client_s1, Init ''s1'' (JStr ''anna''),
      Welcome_received ''s1'' ack_s1, Welcome_received ''s1'' ack_s1] (initial []))))
     = [forQuadtree tank_s1, forQuadtree tank_s1] \<and>
   currentClientDatas (world (snd (run services0
     [Connection ''s1'' client_s1, Init ''s1'' (JStr ''anna''),
      Welcome_received ''s1'' ack_s1, Welcome_received ''s1'' ack_s1,
      Disconnect ''s1''] (initial []))))
     = [''s1'']"
  by (simp add: services0_def on_connection_def on_init_def on_welcome_received_def
      on_disconnect_def disconnect_removals_def upd_obj_def initial_def Let_def put_def
      splice1_def ack_s1_def client_s1_def tank_s1_def forQuadtree_def)

section \<open>Scoreboard\<close>

text \<open>
  C2, as the claim states it, fails in its last part: among tanks with equal kill counts
  the order of the output is not the order of the input. With four tracked clients of 5,
  3, 9 and 5 kills, in this order, and a configured scoreboard length of 3, the refresh
  lists the client with 9 kills, then the second client with 5 kills, then the first.
\<close>

theorem scoreboard_ties_not_in_input_order:
  "(case tanks_of (world arena) (currentClientDatas (world arena)) of
      Inl e \<Rightarrow> []
    | Inr ts \<Rightarrow> map (\<lambda>t. (tscreenName t, kills t)) ts)
     = [(''ann'', 5), (''bob'', 3), (''cy'', 9), (''dee'', 5)] \<and>
   scoreboardList (snd (updateScoreboard (config0\<lparr>scoreBoardLength := 3\<rparr>) arena))
     = [(''cy'', 9), (''dee'', 5), (''ann'', 5)]"
  by code_simp

text \<open>
  C2, amended. Given the tanks of all tracked clients, the scoreboard refresh ends
  normally and produces (display name, kill count) pairs: as many as the smaller of the
  number of tracked clients and the configured scoreboard length (so all of them when the
  configured length is not smaller), in descending order of kills, each the pair of a
  tank of the input, and no tank left out having more kills than one that is listed.
  Nothing is stated about the order among tanks with equal kill counts.
\<close>

theorem scoreboard_top_k:
  assumes ts: "tanks_of (world st) (currentClientDatas (world st)) = Inr ts"
    and out: "out = scoreboardList (snd (updateScoreboard c st))"
    and inp: "inp = map (\<lambda>t. (tscreenName t, kills t)) ts"
  shows "fst (updateScoreboard c st) = None \<and>
         length out = min (length (currentClientDatas (world st))) (scoreBoardLength c) \<and>
         (length (currentClientDatas (world st)) \<le> scoreBoardLength c \<longrightarrow>
            length out = length (currentClientDatas (world st))) \<and>
         sorted_wrt (\<lambda>a b. snd b \<le> snd a) out \<and>
         mset out \<subseteq># mset inp \<and>
         (\<forall>a \<in># mset inp - mset out. \<forall>b \<in> set out. snd a \<le> snd b)"
proof -
  let ?n = "min (length (currentClientDatas (world st))) (scoreBoardLength c)"
  let ?e = "\<lambda>t. (tscreenName t, kills t)"
  let ?r = "nlargest ts ?n (\<lambda>tank1 tank2. kills tank1 - kills tank2)"
  have len: "length ts = length (currentClientDatas (world st))"
    using ts by (rule tanks_of_length)
  have o: "out = map ?e ?r"
    using ts by (simp add: out updateScoreboard_def)
  have ok: "fst (updateScoreboard c st) = None"
    using ts by (simp add: updateScoreboard_def)
  from nlargest_top [where f = kills and xs = ts and n = ?n] obtain rest where
    top: "length ?r = min ?n (length ts)" "sorted_wrt (\<lambda>a b. kills b \<le> kills a) ?r"
      "mset ?r + rest = mset ts" "\<forall>t \<in># rest. \<forall>u \<in> set ?r. kills t \<le> kills u"
    by blast
  have l: "length out = ?n"
    using top(1) by (simp add: o len)
  have s: "sorted_wrt (\<lambda>a b. snd b \<le> snd a) out"
    using top(2) by (simp add: o sorted_wrt_map)
  have "mset inp = image_mset ?e (mset ?r + rest)"
    by (simp only: top(3)) (simp add: inp)
  then have split: "mset inp = mset out + image_mset ?e rest"
    by (simp add: o)
  have sub: "mset out \<subseteq># mset inp"
    by (simp add: split)
  have left: "mset inp - mset out = image_mset ?e rest"
    by (simp add: split)
  have low: "\<forall>a \<in># mset inp - mset out. \<forall>b \<in> set out. snd a \<le> snd b"
  proof (intro ballI)
    fix a b
    assume "a \<in># mset inp - mset out" and "b \<in> set out"
    then obtain t u where t: "t \<in># rest" "a = ?e t" and u: "u \<in> set ?r" "b = ?e u"
      unfolding left unfolding o by auto
    from top(4) t(1) u(1) have "kills t \<le> kills u"
      by blast
    with t(2) u(2) show "snd a \<le> snd b" by simp
  qed
  from ok l s sub low show ?thesis by simp
qed

theorem scoreboard_top_k_witness:
  "scoreboardList (snd (updateScoreboard config0 arena)) = [(''cy'', 9), (''ann'', 5)] \<and>
   length (scoreboardList (snd (updateScoreboard config0 arena))) = 2"
proof -
  have e: "scoreboardList (snd (updateScoreboard config0 arena)) = [(''cy'', 9), (''ann'', 5)]"
    by code_simp
  show ?thesis
    using e scoreboard_top_k [OF arena_tanks refl refl, of config0]
    by simp
qed

section \<open>World snapshot\<close>

text \<open>
  C3, as the claim states it, fails: the order of the fields is the order in which
  \<open>Object.assign\<close> creates them and nothing else enforces it. With a payload that has a
  key \<open>ammo\<close> the ammo field comes before the visible-objects field \<open>tanks\<close>, and with
  a payload keyed by an array index the visible-objects field comes before the viewpoint.
\<close>

theorem field_order_depends_on_payload:
  "map snapshot_keys (new_emissions active_s1 (snd (clientUpdater clash_services active_s1)))
     = [[''perspective'', ''ammo'', ''tanks'', ''scoreboard'']] \<and>
   map snapshot_keys (new_emissions active_s1 (snd (clientUpdater array_services active_s1)))
     = [[''0'', ''perspective'', ''ammo'', ''scoreboard'']]"
  by (simp add: run_defs2 clash_services_def array_services_def)

text \<open>
  C3, amended. When the payloads of the quadtree manager are well keyed, every
  world snapshot a broadcast tick emits enumerates its fields in the order: the
  viewpoint \<open>perspective\<close>, the fields of the visible-objects payload in their own order,
  \<open>ammo\<close>, \<open>scoreboard\<close>.
\<close>

theorem broadcast_field_order:
  assumes "\<forall>px py sw sh q. well_keyed (queryGameObjects sv px py sw sh q)"
  shows "\<forall>e \<in> set (new_emissions st (snd (clientUpdater sv st))).
           \<exists>sock msg px py sw sh.
             e = Game_objects_update sock msg \<and>
             own_keys msg =
               ''perspective'' # map fst (queryGameObjects sv px py sw sh (quadtree (world st)))
                 @ [''ammo'', ''scoreboard'']"
proof
  fix e
  assume e: "e \<in> set (new_emissions st (snd (clientUpdater sv st)))"
  from clientUpdater_loop_news [of sv "currentClientDatas (world st)" st]
  obtain news where
    n: "outbox (snd (clientUpdater sv st)) = outbox st @ news"
    and a: "\<forall>e \<in> set news. \<exists>sock cd msg.
       e = Game_objects_update sock msg \<and> snapshot sv st cd = Inr msg"
    by (auto simp: clientUpdater_def)
  from e n have "e \<in> set news" by (simp add: new_emissions_def)
  with a obtain sock cd msg where g: "e = Game_objects_update sock msg"
    and snap: "snapshot sv st cd = Inr msg" by blast
  from snapshot_shape [OF snap] obtain px py sw sh p a where
    m: "msg = assign [] [[(''perspective'', p)],
                         queryGameObjects sv px py sw sh (quadtree (world st)),
                         [(''ammo'', a)],
                         [(''scoreboard'', scoreboard_js (scoreboardList st))]]"
    by blast
  from assms have "well_keyed (queryGameObjects sv px py sw sh (quadtree (world st)))"
    by blast
  from merge_order [OF this] g m show "\<exists>sock msg px py sw sh.
             e = Game_objects_update sock msg \<and>
             own_keys msg =
               ''perspective'' # map fst (queryGameObjects sv px py sw sh (quadtree (world st)))
                 @ [''ammo'', ''scoreboard'']"
    by blast
qed

theorem broadcast_field_order_witness:
  "scoreboardList scored_s1 = [(''anna'', 0)] \<and>
   map snapshot_keys (new_emissions scored_s1 (snd (clientUpdater services0 scored_s1)))
     = [[''perspective'', ''tanks'', ''ammo'', ''scoreboard'']]"
proof -
  have h: "\<forall>px py sw sh q. well_keyed (queryGameObjects services0 px py sw sh q)"
    by (simp add: services0_def well_keyed_def array_index_def digit_of_def)
  have e: "scoreboardList scored_s1 = [(''anna'', 0)] \<and>
     map snapshot_keys (new_emissions scored_s1 (snd (clientUpdater services0 scored_s1)))
       = [[''perspective'', ''tanks'', ''ammo'', ''scoreboard'']]"
    by (simp add: scored_s1_def updateScoreboard_def nlargest_def heapify_def sort_by_def run_defs2)
  show ?thesis
    using e broadcast_field_order [OF h, of scored_s1] by simp
qed

text \<open>
  C10. In every execution from the initial state in which the scoreboard refresh has
  not yet run, the cached scoreboard is the empty list and the \<open>scoreboard\<close> field of
  every world snapshot emitted so far is the empty array.
\<close>

theorem scoreboard_empty_before_first_refresh:
  assumes "Tick UpdateScoreboard \<notin> set evs"
  shows "scoreboardList (snd (run sv evs (initial q0))) = [] \<and>
         (\<forall>e \<in> set (outbox (snd (run sv evs (initial q0)))). \<forall>sock msg.
            e = Game_objects_update sock msg \<longrightarrow> map_of msg ''scoreboard'' = Some (js_array []))"
  by (rule run_keeps_empty_scoreboard [OF assms]) (simp_all add: initial_def)

theorem scoreboard_empty_before_first_refresh_witness:
  "Tick UpdateScoreboard \<notin> set evs_s1 \<and>
   scoreboardList (snd (run services0 evs_s1 (initial []))) = [] \<and>
   map scoreboard_field (outbox (snd (run services0 evs_s1 (initial []))))
     = [None, Some (js_array [])]"
proof -
  have h: "Tick UpdateScoreboard \<notin> set evs_s1"
    by (simp add: evs_s1_def)
  have e: "map scoreboard_field (outbox (snd (run services0 evs_s1 (initial []))))
     = [None, Some (js_array [])]"
    by (simp add: evs_s1_def run_defs)
  show ?thesis
    using h e scoreboard_empty_before_first_refresh [OF h, of services0 "[]"] by simp
qed

section \<open>Ping\<close>

text \<open>
  C9. The three periodic drivers are the game object updater, the client updater and
  the scoreboard refresh; \<open>checkPing\<close> is none of them and no callback calls it. So in
  every execution, from any state, no \<open>pingcheck\<close> message is ever emitted, and, the
  game logic service leaving \<open>startPingTime\<close> alone, the \<open>startPingTime\<close> of a client
  stays what it was for as long as no new connection replaces the client.
\<close>

theorem no_driver_invokes_checkPing:
  "filter is_pingcheck (outbox (snd (run sv evs st))) = filter is_pingcheck (outbox st) \<and>
   (keeps_startPingTime sv \<and> (\<forall>cd0. Connection s cd0 \<notin> set evs) \<longrightarrow>
      map_option startPingTime (objs (world (snd (run sv evs st))) s)
        = map_option startPingTime (objs (world st) s))"
  using run_no_pingcheck [of sv evs st] run_startPingTime [of sv s evs st] by blast

theorem no_driver_invokes_checkPing_witness:
  "filter is_pingcheck (outbox (snd (run services0 evs_after_s1 active_s1))) = [] \<and>
   map_option startPingTime (objs (world (snd (run services0 evs_after_s1 active_s1))) ''s1'')
     = Some None \<and>
   filter is_pingcheck (outbox (snd (checkPing 7 active_s1))) = [Pingcheck ''s1''] \<and>
   map_option startPingTime (objs (world (snd (checkPing 7 active_s1))) ''s1'') = Some (Some 7)"
proof -
  have k: "keeps_startPingTime services0"
    by (simp add: keeps_startPingTime_def services0_def)
  have c: "\<forall>cd0. Connection ''s1'' cd0 \<notin> set evs_after_s1"
    by (simp add: evs_after_s1_def)
  have o: "filter is_pingcheck (outbox active_s1) = []"
    by (simp add: run_defs2)
  have p: "map_option startPingTime (objs (world active_s1) ''s1'') = Some None"
    by (simp add: active_s1_obj client_s1_def)
  have q: "filter is_pingcheck (outbox (snd (checkPing 7 active_s1))) = [Pingcheck ''s1''] \<and>
     map_option startPingTime (objs (world (snd (checkPing 7 active_s1))) ''s1'') = Some (Some 7)"
    by (simp add: checkPing_def run_defs2 to_key.simps)
  show ?thesis
    using k c o p q no_driver_invokes_checkPing [of services0 evs_after_s1 active_s1 "''s1''"]
    by simp
qed

end
